theory Spec2Isabelle
  imports Complex_Main "HOL-Library.AList" "HOL-Library.Sublist"
begin

section \<open>JavaScript values and string primitives\<close>

text \<open>
  Strings are byte strings: the UTF-8 encoding of the JavaScript string. A JavaScript
  number is \<open>NaN\<close>, an infinity, or a finite double, written as the rational it denotes
  (\<open>-0\<close> and \<open>0\<close> are one value here: both are falsy and both serialise as \<open>0\<close>).
\<close>

datatype jsnum = NaN | PosInfinity | NegInfinity | Num rat

text \<open>A value: a boolean, a number, a string, an array, or (\<open>JObject\<close>) an object or
  function that is no array, such as the members that every object inherits.\<close>

datatype jsval = JBool bool | JNumber jsnum | JString string | JArray "jsval list" | JObject

text \<open>Truthiness of a value, as the operator \<open>||\<close> tests it. \<open>undefined\<close> is the
  absence of a value (\<open>None\<close>) and is falsy.\<close>

fun truthy :: "jsval \<Rightarrow> bool" where
  "truthy (JBool b) = b"
| "truthy (JNumber n) = (n \<noteq> NaN \<and> n \<noteq> Num 0)"
| "truthy (JString s) = (s \<noteq> [])"
| "truthy (JArray xs) = True"
| "truthy JObject = True"

text \<open>\<open>a || b\<close> where \<open>a\<close> is a property read that may be \<open>undefined\<close>.\<close>

definition js_or :: "jsval option \<Rightarrow> jsval \<Rightarrow> jsval" where
  "js_or a b = (case a of None \<Rightarrow> b | Some v \<Rightarrow> if truthy v then v else b)"

text \<open>\<open>String.prototype.includes\<close>: the argument occurs somewhere in the receiver.\<close>

fun str_includes :: "string \<Rightarrow> string \<Rightarrow> bool" where
  "str_includes [] sub = (sub = [])"
| "str_includes (c # cs) sub = (take (length sub) (c # cs) = sub \<or> str_includes cs sub)"

text \<open>
  \<open>String.prototype.toLowerCase\<close> on the ASCII letters. Bytes of non-ASCII characters are
  left as they are; no such character lower-cases to a letter of \<open>false\<close>, the one
  string the result is compared with.
\<close>

definition lower_char :: "char \<Rightarrow> char" where
  "lower_char c =
     (case map_of (zip ''ABCDEFGHIJKLMNOPQRSTUVWXYZ'' ''abcdefghijklmnopqrstuvwxyz'') c of
        None \<Rightarrow> c | Some l \<Rightarrow> l)"

definition toLowerCase :: "string \<Rightarrow> string" where
  "toLowerCase s = map lower_char s"

text \<open>
  The WhiteSpace and LineTerminator code points of ECMAScript, each as its UTF-8 bytes:
  TAB, LF, VT, FF, CR, SPACE, then U+00A0, U+1680, U+2000 to U+200A, U+2028, U+2029,
  U+202F, U+205F, U+3000 and U+FEFF.
\<close>

definition white_space :: "string list" where
  "white_space =
     [[CHR 0x09], [CHR 0x0A], [CHR 0x0B], [CHR 0x0C], [CHR 0x0D], [CHR 0x20],
      [CHR 0xC2, CHR 0xA0],
      [CHR 0xE1, CHR 0x9A, CHR 0x80],
      [CHR 0xE2, CHR 0x80, CHR 0x80], [CHR 0xE2, CHR 0x80, CHR 0x81],
      [CHR 0xE2, CHR 0x80, CHR 0x82], [CHR 0xE2, CHR 0x80, CHR 0x83],
      [CHR 0xE2, CHR 0x80, CHR 0x84], [CHR 0xE2, CHR 0x80, CHR 0x85],
      [CHR 0xE2, CHR 0x80, CHR 0x86], [CHR 0xE2, CHR 0x80, CHR 0x87],
      [CHR 0xE2, CHR 0x80, CHR 0x88], [CHR 0xE2, CHR 0x80, CHR 0x89],
      [CHR 0xE2, CHR 0x80, CHR 0x8A],
      [CHR 0xE2, CHR 0x80, CHR 0xA8], [CHR 0xE2, CHR 0x80, CHR 0xA9],
      [CHR 0xE2, CHR 0x80, CHR 0xAF],
      [CHR 0xE2, CHR 0x81, CHR 0x9F],
      [CHR 0xE3, CHR 0x80, CHR 0x80],
      [CHR 0xEF, CHR 0xBB, CHR 0xBF]]"

text \<open>Remove from the front of \<open>s\<close> every leading occurrence of one of the patterns.\<close>

function strip :: "string list \<Rightarrow> string \<Rightarrow> string" where
  "strip pats s =
     (case find (\<lambda>p. p \<noteq> [] \<and> take (length p) s = p) pats of
        None \<Rightarrow> s
      | Some p \<Rightarrow> strip pats (drop (length p) s))"
  by pat_completeness auto
termination
proof (relation "measure (\<lambda>(pats, s). length s)")
  show "wf (measure (\<lambda>(pats, s). length s))" by simp
next
  fix pats :: "string list" and s p :: string
  assume "find (\<lambda>p. p \<noteq> [] \<and> take (length p) s = p) pats = Some p"
  then have p: "p \<noteq> []" "take (length p) s = p"
    by (auto simp: find_Some_iff)
  from p(2) have "length (take (length p) s) = length p"
    by simp
  then have "length p \<le> length s"
    by simp
  with p(1) show "((pats, drop (length p) s), (pats, s)) \<in> measure (\<lambda>(pats, s). length s)"
    by (cases p) auto
qed

declare strip.simps [simp del]

definition trimStart :: "string \<Rightarrow> string" where
  "trimStart s = strip white_space s"

definition trimEnd :: "string \<Rightarrow> string" where
  "trimEnd s = rev (strip (map rev white_space) (rev s))"

definition trim :: "string \<Rightarrow> string" where
  "trim s = trimEnd (trimStart s)"

text \<open>
  \<open>parseInt(string)\<close> with no radix: leading white space is skipped, a sign is read, the
  prefix \<open>0x\<close> or \<open>0X\<close> selects radix 16 (otherwise 10), and the longest run of digits
  of that radix is the value; with no digit the result is \<open>NaN\<close>. The value is the
  double nearest to the integer read (\<open>nearest_double\<close>): an integer below 2^53 is
  itself, a larger one is rounded to 53 significant bits, a tie going to the even
  mantissa, and what rounds to 2^1024 or more is an infinity.
\<close>

function bit_length :: "int \<Rightarrow> nat" where
  "bit_length n = (if n \<le> 0 then 0 else Suc (bit_length (n div 2)))"
  by pat_completeness auto
termination
  by (relation "measure nat") auto

declare bit_length.simps [simp del]

definition nearest_double :: "int \<Rightarrow> int option" where
  "nearest_double n =
     (if n < 2 ^ 53 then Some n
      else
        (let shift = bit_length n - 53;
             q = n div 2 ^ shift;
             r = n mod 2 ^ shift;
             half = 2 ^ (shift - 1);
             q = (if half < r \<or> (r = half \<and> odd q) then q + 1 else q);
             v = q * 2 ^ shift
         in if 2 ^ 1024 \<le> v then None else Some v))"

definition digit_of :: "nat \<Rightarrow> char \<Rightarrow> nat option" where
  "digit_of R c =
     (case map_of (zip ''0123456789abcdef'' [0..<16] @ zip ''ABCDEF'' [10..<16]) c of
        None \<Rightarrow> None
      | Some d \<Rightarrow> if d < R then Some d else None)"

fun digits_value :: "nat \<Rightarrow> string \<Rightarrow> int option \<Rightarrow> int option" where
  "digits_value R [] acc = acc"
| "digits_value R (c # cs) acc =
     (case digit_of R c of
        None \<Rightarrow> acc
      | Some d \<Rightarrow>
          digits_value R cs (Some ((case acc of None \<Rightarrow> 0 | Some a \<Rightarrow> a) * int R + int d)))"

definition parseInt :: "string \<Rightarrow> jsnum" where
  "parseInt string =
     (let S = trimStart string;
          sign = (if take 1 S = ''-'' then -1 else (1::int));
          S = (if take 1 S = ''+'' \<or> take 1 S = ''-'' then drop 1 S else S);
          hex = (take 2 S = ''0x'' \<or> take 2 S = ''0X'');
          R = (if hex then 16 else 10);
          S = (if hex then drop 2 S else S)
      in case digits_value R S None of
           None \<Rightarrow> NaN
         | Some mathInt \<Rightarrow>
             (case nearest_double mathInt of
                None \<Rightarrow> if sign < 0 then NegInfinity else PosInfinity
              | Some v \<Rightarrow> Num (of_int (sign * v))))"

section \<open>The plugin: field coercion\<close>

text \<open>A field definition of the collection schema. Only \<open>name\<close> and \<open>type\<close> are read
  by the plugin.\<close>

record field_definition =
  field_name :: string
  field_type :: string

text \<open>
  \<open>typeCastValue\<close>. The runtime's \<open>parseFloat\<close> is a parameter: the conversion of a
  decimal numeral to the nearest double is not part of this development.
\<close>

definition typeCastValue ::
  "(string \<Rightarrow> jsnum) \<Rightarrow> field_definition \<Rightarrow> string \<Rightarrow> jsval" where
  "typeCastValue parseFloat fieldDefinition attributeValue =
     (if str_includes (field_type fieldDefinition) ''int'' then JNumber (parseInt attributeValue)
      else if str_includes (field_type fieldDefinition) ''float''
        then JNumber (parseFloat attributeValue)
      else if str_includes (field_type fieldDefinition) ''bool'' then
        (if toLowerCase attributeValue = ''false'' then JBool False
         else if attributeValue = ''0'' then JBool False
         else JBool (trim attributeValue \<noteq> ''''))
      else JString attributeValue)"

section \<open>The plugin: building the document of one page\<close>

text \<open>
  The object \<open>typesenseDocument\<close>, created as \<open>{}\<close>: its own properties in the order of
  their creation. JavaScript lists keys that are array indices before the others; the
  order of the keys is used nowhere below.
\<close>

type_synonym document = "(string \<times> jsval) list"

text \<open>The names of the members of \<open>Object.prototype\<close>, which every object made by \<open>{}\<close>
  inherits.\<close>

definition object_prototype_keys :: "string list" where
  "object_prototype_keys =
     [''constructor'', ''__defineGetter__'', ''__defineSetter__'', ''hasOwnProperty'',
      ''__lookupGetter__'', ''__lookupSetter__'', ''isPrototypeOf'', ''propertyIsEnumerable'',
      ''toString'', ''valueOf'', ''__proto__'', ''toLocaleString'']"

text \<open>
  \<open>obj[k]\<close> read: the own property if there is one, else the inherited member (a function,
  or for \<open>__proto__\<close> the prototype itself), else \<open>undefined\<close>. The key \<open>__proto__\<close> is an
  accessor of the prototype and never an own property of such an object.
\<close>

definition get_property :: "document \<Rightarrow> string \<Rightarrow> jsval option" where
  "get_property obj k =
     (if k = ''__proto__'' then Some JObject
      else case map_of obj k of
             Some v \<Rightarrow> Some v
           | None \<Rightarrow> if k \<in> set object_prototype_keys then Some JObject else None)"

text \<open>
  \<open>obj[k] = v\<close>: the own property is created, or written in its place. An assignment to
  \<open>__proto__\<close> goes to the setter of the prototype, which ignores a primitive value and
  changes nothing when given the prototype itself; the plugin assigns nothing else to
  that key.
\<close>

definition set_property :: "document \<Rightarrow> string \<Rightarrow> jsval \<Rightarrow> document" where
  "set_property obj k v = (if k = ''__proto__'' then obj else AList.update k v obj)"

text \<open>
  Modelled from the spec: \<open>utils.isObjectEmpty\<close> of \<open>lib/utils\<close>, which is not among the
  sources. The document is skipped "if zero marker attributes were found", that is when
  the object built from the markers has no property of its own.
\<close>

definition isObjectEmpty :: "document \<Rightarrow> bool" where
  "isObjectEmpty obj = (obj = [])"

text \<open>A synonym rule of a collection: its \<open>id\<close> and its \<open>synonyms\<close>.\<close>

record synonym =
  syn_id :: string
  syn_synonyms :: "string list"

text \<open>The collection schema object, with its \<open>name\<close> and its \<open>fields\<close>; further properties
  are the record's extension.\<close>

record collection_schema =
  name :: string
  schema_fields :: "field_definition list"

text \<open>
  What the reporter and the console are told. One constructor for each message template
  of the source, with the values the template interpolates.
\<close>

datatype message =
    StartingOnPostBuild
  | NewCollectionName string
  | OldCollectionName "string option"
  | RetrievingSynonyms string
  | RetrievedSynonyms nat
  | ErrorRetrievingOld string
  | CreatingCollection string
  | CouldNotCreateCollection string string
  | Indexing string
  | FieldNotDefined string
  | NoElementsSkippingPage
  | CreatingDocument document
  | DocumentCreated
  | CouldNotCreateDocument string
  | UpsertingSynonyms nat
  | UpsertedSynonyms
  | NoSynonymsToUpsert
  | UpsertingAlias string string
  | UpsertedAlias
  | CouldNotUpsertAlias string string string
  | DeletingOldCollection string
  | DeletedOldCollection
  | CouldNotDeleteOldCollection string string
  | ContentIndexed string string
  | FailedToRetrieveSynonyms string string
  | FailedToUpsertSynonym string string

datatype level = Verbose | Info | Warn | Error | Panic | ConsoleWarn

text \<open>
  How a call can end other than by returning. \<open>reporter.panic\<close> of the build tool
  reports the message and ends the build process: the run stops there (\<open>Panicked\<close>).
  \<open>Thrown\<close> is an exception that nothing catches; it rejects the promise of
  \<open>onPostBuild\<close>.
\<close>

datatype failure = Panicked message | Thrown string

text \<open>The calls made to the search engine, with their arguments.\<close>

datatype 'm request =
    AliasesRetrieve string
  | SynonymsRetrieve string
  | CollectionsCreate "'m collection_schema_scheme"
  | DocumentsCreate string document
  | SynonymsUpsert string string "string list"
  | AliasesUpsert string string
  | CollectionsDelete string

text \<open>An event of a run: a call to the engine and whether it succeeded, or a report.\<close>

datatype 'm event = Request "'m request" bool | Report level message

text \<open>The world outside the plugin: the state of the search engine, of any type, and the
  events so far, oldest first.\<close>

record ('s, 'm) world =
  engine :: 's
  trace :: "'m event list"

text \<open>
  The client of the search engine. Each operation takes its arguments and the engine's
  state, and fails with an error message (\<open>Inl\<close>) or succeeds with its response (\<open>Inr\<close>);
  nothing else is assumed of the engine. \<open>aliases_retrieve\<close> responds with the property
  \<open>collection_name\<close> of the alias, \<open>synonyms_retrieve\<close> with the property \<open>synonyms\<close> of
  the response, either of which can be missing.
\<close>

record ('s, 'm) typesense =
  aliases_retrieve :: "string \<Rightarrow> 's \<Rightarrow> (string + string option) \<times> 's"
  synonyms_retrieve :: "string \<Rightarrow> 's \<Rightarrow> (string + synonym list option) \<times> 's"
  collections_create :: "'m collection_schema_scheme \<Rightarrow> 's \<Rightarrow> (string + unit) \<times> 's"
  documents_create :: "string \<Rightarrow> document \<Rightarrow> 's \<Rightarrow> (string + unit) \<times> 's"
  synonyms_upsert :: "string \<Rightarrow> string \<Rightarrow> string list \<Rightarrow> 's \<Rightarrow> (string + unit) \<times> 's"
  aliases_upsert :: "string \<Rightarrow> string \<Rightarrow> 's \<Rightarrow> (string + unit) \<times> 's"
  collections_delete :: "string \<Rightarrow> 's \<Rightarrow> (string + unit) \<times> 's"

text \<open>
  The libraries the plugin calls: \<open>parseFloat\<close>; the HTML parser, as the function from a
  file's text to its elements that carry the attribute \<open>data-typesense-field\<close>, in
  document order, each as the attribute's value and the element's text; \<open>fs.readFile\<close>,
  which fails with an error or gives the text; and the listing of the HTML files
  (\<open>utils.getHTMLFilesRecursively\<close>), which fails with an error or gives the paths.
\<close>

record runtime =
  parseFloat :: "string \<Rightarrow> jsnum"
  marked_elements :: "string \<Rightarrow> (string \<times> string) list"
  readFile :: "string \<Rightarrow> string + string"
  getHTMLFilesRecursively ::
    "string option \<Rightarrow> string option \<Rightarrow> string list \<Rightarrow> string + string list"

definition report :: "level \<Rightarrow> message \<Rightarrow> ('s, 'm) world \<Rightarrow> ('s, 'm) world" where
  "report l m w = w\<lparr>trace := trace w @ [Report l m]\<rparr>"

text \<open>An awaited call to the engine: the engine moves on, the call is logged.\<close>

definition invoke ::
  "('s \<Rightarrow> (string + 'a) \<times> 's) \<Rightarrow> 'm request \<Rightarrow> ('s, 'm) world \<Rightarrow> (string + 'a) \<times> ('s, 'm) world" where
  "invoke operation req w =
     (case operation (engine w) of
        (r, s) \<Rightarrow> (r, w\<lparr>engine := s, trace := trace w @ [Request req (\<not> isl r)]\<rparr>))"

text \<open>
  The callback of \<open>.each\<close> (lines 37 to 56), on the document built so far. Line 51
  reads the property, through the prototype, and assigns it back or a new array; line 52
  calls \<open>push\<close> on what the property then reads as, which throws a TypeError unless that
  is an array. For a field that the schema does not declare the callback panics; the
  report of the panic is added to the trace where the result of the loop is taken up, in
  \<open>indexContentInTypesense\<close>.
\<close>

definition each_callback ::
  "(string \<Rightarrow> jsnum) \<Rightarrow> field_definition list \<Rightarrow> document \<Rightarrow> string \<times> string
     \<Rightarrow> failure + document" where
  "each_callback pf fds typesenseDocument element =
     (case element of (attributeName, attributeValue) \<Rightarrow>
        (case find (\<lambda>f. field_name f = attributeName) fds of
           None \<Rightarrow> Inl (Panicked (FieldNotDefined attributeName))
         | Some fieldDefinition \<Rightarrow>
             if str_includes (field_type fieldDefinition) ''[]'' then
               (let typesenseDocument =
                      set_property typesenseDocument attributeName
                        (js_or (get_property typesenseDocument attributeName) (JArray []))
                in case get_property typesenseDocument attributeName of
                     Some (JArray xs) \<Rightarrow>
                       Inr (set_property typesenseDocument attributeName
                              (JArray (xs @ [typeCastValue pf fieldDefinition attributeValue])))
                   | _ \<Rightarrow> Inl (Thrown ''TypeError: push is not a function''))
             else
               Inr (set_property typesenseDocument attributeName
                      (typeCastValue pf fieldDefinition attributeValue))))"

fun each :: "(string \<Rightarrow> jsnum) \<Rightarrow> field_definition list \<Rightarrow> (string \<times> string) list
    \<Rightarrow> document \<Rightarrow> failure + document" where
  "each pf fds [] typesenseDocument = Inr typesenseDocument"
| "each pf fds (element # elements) typesenseDocument =
     (case each_callback pf fds typesenseDocument element of
        Inl f \<Rightarrow> Inl f
      | Inr typesenseDocument' \<Rightarrow> each pf fds elements typesenseDocument')"

text \<open>Lines 65 to 67: the two implicit fields.\<close>

definition add_page_fields :: "string \<Rightarrow> document \<Rightarrow> document" where
  "add_page_fields wwwPath typesenseDocument =
     (let typesenseDocument = set_property typesenseDocument ''page_path'' (JString wwwPath)
      in set_property typesenseDocument ''page_priority_score''
           (js_or (get_property typesenseDocument ''page_priority_score'') (JNumber (Num 10))))"

definition indexContentInTypesense ::
  "runtime \<Rightarrow> ('s, 'm) typesense \<Rightarrow> string \<Rightarrow> string \<Rightarrow> 'm collection_schema_scheme
     \<Rightarrow> ('s, 'm) world \<Rightarrow> (failure + unit) \<times> ('s, 'm) world" where
  "indexContentInTypesense rt client fileContents wwwPath newCollectionSchema w =
     (case each (parseFloat rt) (schema_fields newCollectionSchema)
             (marked_elements rt fileContents) [] of
        Inl (Panicked errorMsg) \<Rightarrow> (Inl (Panicked errorMsg), report Panic errorMsg w)
      | Inl (Thrown e) \<Rightarrow> (Inl (Thrown e), w)
      | Inr typesenseDocument \<Rightarrow>
          if isObjectEmpty typesenseDocument
          then (Inr (), report Warn NoElementsSkippingPage w)
          else
            (let typesenseDocument = add_page_fields wwwPath typesenseDocument;
                 w = report Verbose (CreatingDocument typesenseDocument) w
             in case invoke (documents_create client (name newCollectionSchema) typesenseDocument)
                       (DocumentsCreate (name newCollectionSchema) typesenseDocument) w of
                  (Inr u, w) \<Rightarrow> (Inr (), report Verbose DocumentCreated w)
                | (Inl error, w) \<Rightarrow>
                    (Inl (Panicked (CouldNotCreateDocument error)),
                     report Panic (CouldNotCreateDocument error) w)))"

section \<open>The plugin: synonyms\<close>

definition getExistingSynonyms ::
  "('s, 'm) typesense \<Rightarrow> string \<Rightarrow> ('s, 'm) world \<Rightarrow> synonym list \<times> ('s, 'm) world" where
  "getExistingSynonyms client collectionName w =
     (case invoke (synonyms_retrieve client collectionName) (SynonymsRetrieve collectionName) w of
        (Inr response, w) \<Rightarrow> ((case response of None \<Rightarrow> [] | Some syns \<Rightarrow> syns), w)
      | (Inl error, w) \<Rightarrow>
          ([], report ConsoleWarn (FailedToRetrieveSynonyms collectionName error) w))"

fun upsertSynonyms ::
  "('s, 'm) typesense \<Rightarrow> string \<Rightarrow> synonym list \<Rightarrow> ('s, 'm) world \<Rightarrow> ('s, 'm) world" where
  "upsertSynonyms client collectionName [] w = w"
| "upsertSynonyms client collectionName (synonym # synonyms) w =
     (case invoke (synonyms_upsert client collectionName (syn_id synonym) (syn_synonyms synonym))
             (SynonymsUpsert collectionName (syn_id synonym) (syn_synonyms synonym)) w of
        (Inr u, w) \<Rightarrow> upsertSynonyms client collectionName synonyms w
      | (Inl error, w) \<Rightarrow>
          upsertSynonyms client collectionName synonyms
            (report ConsoleWarn (FailedToUpsertSynonym (syn_id synonym) error) w))"

section \<open>The plugin: the run\<close>

text \<open>\<open>a || b\<close> on values that are a string or \<open>undefined\<close>; the empty string is falsy.\<close>

definition if_truthy :: "string option \<Rightarrow> string option" where
  "if_truthy a = (case a of None \<Rightarrow> None | Some c \<Rightarrow> if c = [] then None else Some c)"

definition str_or :: "string option \<Rightarrow> string option \<Rightarrow> string option" where
  "str_or a b = (case if_truthy a of None \<Rightarrow> b | Some c \<Rightarrow> Some c)"

text \<open>The string a value converts to when a string is expected.\<close>

definition js_string_of :: "string option \<Rightarrow> string" where
  "js_string_of a = (case a of None \<Rightarrow> ''undefined'' | Some c \<Rightarrow> c)"

text \<open>\<open>subject.replace(pattern, "")\<close> for a string pattern: the first occurrence goes.\<close>

fun replace_first :: "string \<Rightarrow> string \<Rightarrow> string" where
  "replace_first pat [] = []"
| "replace_first pat (c # cs) =
     (if take (length pat) (c # cs) = pat then drop (length pat) (c # cs)
      else c # replace_first pat cs)"

text \<open>\<open>subject.replace(/index\.html$/, "")\<close>.\<close>

definition remove_index_html :: "string \<Rightarrow> string" where
  "remove_index_html subject =
     (if 10 \<le> length subject \<and> drop (length subject - 10) subject = ''index.html''
      then take (length subject - 10) subject else subject)"

text \<open>
  The objects of the heap that are collection schemas; a reference is an index. The
  plugin receives a reference to the caller's \<open>collectionSchema\<close>, and
  \<open>{ ...collectionSchema }\<close> allocates a new object with the same properties. The option
  \<open>generateNewCollectionName\<close> is the caller's function, or the one of \<open>lib/utils\<close>: it
  throws an error or gives the name.
\<close>

type_synonym 'm heap = "'m collection_schema_scheme list"

record 'm plugin_options =
  collectionSchema :: nat
  publicDir :: "string option"
  rootDir :: "string option"
  exclude :: "string list"
  generateNewCollectionName :: "'m collection_schema_scheme \<Rightarrow> string + string"

text \<open>Lines 138 to 153: the alias is looked up, and the synonyms of its collection.\<close>

definition retrieve_old_collection ::
  "('s, 'm) typesense \<Rightarrow> string \<Rightarrow> ('s, 'm) world
     \<Rightarrow> string option \<times> synonym list \<times> ('s, 'm) world" where
  "retrieve_old_collection client aliasName w =
     (case invoke (aliases_retrieve client aliasName) (AliasesRetrieve aliasName) w of
        (Inl error, w) \<Rightarrow> (None, [], report Warn (ErrorRetrievingOld error) w)
      | (Inr oldCollectionName, w) \<Rightarrow>
          (let w = report Info (OldCollectionName oldCollectionName) w
           in case if_truthy oldCollectionName of
                None \<Rightarrow> (oldCollectionName, [], w)
              | Some old \<Rightarrow>
                  (let w = report Info (RetrievingSynonyms old) w
                   in case getExistingSynonyms client old w of
                        (existingSynonyms, w) \<Rightarrow>
                          (oldCollectionName, existingSynonyms,
                           report Info (RetrievedSynonyms (length existingSynonyms)) w))))"

text \<open>Lines 155 to 160.\<close>

definition create_new_collection ::
  "('s, 'm) typesense \<Rightarrow> string \<Rightarrow> 'm collection_schema_scheme \<Rightarrow> ('s, 'm) world
     \<Rightarrow> (failure + unit) \<times> ('s, 'm) world" where
  "create_new_collection client newCollectionName newCollectionSchema w =
     (let w = report Info (CreatingCollection newCollectionName) w
      in case invoke (collections_create client newCollectionSchema)
                (CollectionsCreate newCollectionSchema) w of
           (Inr u, w) \<Rightarrow> (Inr (), w)
         | (Inl error, w) \<Rightarrow>
             (Inl (Panicked (CouldNotCreateCollection newCollectionName error)),
              report Panic (CouldNotCreateCollection newCollectionName error) w))"

text \<open>Lines 162 to 173: the loop over the files. A failure of \<open>fs.readFile\<close> is caught
  nowhere.\<close>

fun index_files ::
  "runtime \<Rightarrow> ('s, 'm) typesense \<Rightarrow> string option \<Rightarrow> 'm collection_schema_scheme
     \<Rightarrow> string list \<Rightarrow> ('s, 'm) world \<Rightarrow> (failure + unit) \<times> ('s, 'm) world" where
  "index_files rt client dir newCollectionSchema [] w = (Inr (), w)"
| "index_files rt client dir newCollectionSchema (file # htmlFiles) w =
     (let wwwPath = remove_index_html (replace_first (js_string_of dir) file);
          w = report Verbose (Indexing wwwPath) w
      in case readFile rt file of
           Inl e \<Rightarrow> (Inl (Thrown e), w)
         | Inr fileContents \<Rightarrow>
             (case indexContentInTypesense rt client fileContents wwwPath newCollectionSchema w of
                (Inl f, w) \<Rightarrow> (Inl f, w)
              | (Inr u, w) \<Rightarrow> index_files rt client dir newCollectionSchema htmlFiles w))"

text \<open>Lines 175 to 185. \<open>upsertSynonyms\<close> catches every failure itself, so the handler
  around its call is never entered.\<close>

definition carry_synonyms ::
  "('s, 'm) typesense \<Rightarrow> string \<Rightarrow> synonym list \<Rightarrow> ('s, 'm) world \<Rightarrow> ('s, 'm) world" where
  "carry_synonyms client newCollectionName existingSynonyms w =
     (if length existingSynonyms > 0 then
        (let w = report Info (UpsertingSynonyms (length existingSynonyms)) w;
             w = upsertSynonyms client newCollectionName existingSynonyms w
         in report Info UpsertedSynonyms w)
      else report Info NoSynonymsToUpsert w)"

text \<open>Lines 187 to 195.\<close>

definition upsert_alias ::
  "('s, 'm) typesense \<Rightarrow> string \<Rightarrow> string \<Rightarrow> ('s, 'm) world \<Rightarrow> ('s, 'm) world" where
  "upsert_alias client aliasName newCollectionName w =
     (let w = report Info (UpsertingAlias aliasName newCollectionName) w
      in case invoke (aliases_upsert client aliasName newCollectionName)
                (AliasesUpsert aliasName newCollectionName) w of
           (Inr u, w) \<Rightarrow> report Info UpsertedAlias w
         | (Inl error, w) \<Rightarrow>
             report Error (CouldNotUpsertAlias aliasName newCollectionName error) w)"

text \<open>Lines 197 to 205.\<close>

definition delete_old_collection ::
  "('s, 'm) typesense \<Rightarrow> string option \<Rightarrow> ('s, 'm) world \<Rightarrow> ('s, 'm) world" where
  "delete_old_collection client oldCollectionName w =
     (case if_truthy oldCollectionName of
        None \<Rightarrow> w
      | Some old \<Rightarrow>
          (let w = report Info (DeletingOldCollection old) w
           in case invoke (collections_delete client old) (CollectionsDelete old) w of
                (Inr u, w) \<Rightarrow> report Info DeletedOldCollection w
              | (Inl error, w) \<Rightarrow> report Error (CouldNotDeleteOldCollection old error) w))"

text \<open>
  \<open>onPostBuild\<close>, from the engine's state \<open>s\<close> and the heap: the outcome, the world at
  the end (the trace starts empty) and the heap at the end. \<open>new_client\<close> is the outcome
  of \<open>new TypesenseClient(server)\<close>: the constructor throws on a configuration that it
  refuses, or gives the client. The listing of the files (line 129), the constructor
  (line 131) and the generation of the name (line 132) are in no \<open>try\<close>: an error of any
  of them ends the run before the first call to the engine. An index beyond the heap is
  the reference of no object; no value of the program is such a reference, and the run
  is ended at once for it.
\<close>

definition onPostBuild ::
  "runtime \<Rightarrow> string + ('s, 'm) typesense \<Rightarrow> 'm plugin_options \<Rightarrow> 'm heap \<Rightarrow> 's
     \<Rightarrow> (failure + unit) \<times> ('s, 'm) world \<times> 'm heap" where
  "onPostBuild rt new_client opts heap s =
     (let w = report Info StartingOnPostBuild \<lparr>engine = s, trace = []\<rparr>;
          dir = str_or (rootDir opts) (publicDir opts)
      in case getHTMLFilesRecursively rt dir dir (exclude opts) of
           Inl e \<Rightarrow> (Inl (Thrown e), w, heap)
         | Inr htmlFiles \<Rightarrow>
             (case new_client of
                Inl e \<Rightarrow> (Inl (Thrown e), w, heap)
              | Inr client \<Rightarrow>
                  (let base = collectionSchema opts
                   in if length heap \<le> base then (Inl (Thrown ''TypeError''), w, heap)
                      else
                        (case generateNewCollectionName opts (heap ! base) of
                           Inl e \<Rightarrow> (Inl (Thrown e), w, heap)
                         | Inr newCollectionName \<Rightarrow>
           (let newCollectionSchema = length heap;
                heap = heap @ [heap ! base];
                heap = heap[newCollectionSchema :=
                         (heap ! newCollectionSchema)\<lparr>name := newCollectionName\<rparr>];
                w = report Info (NewCollectionName newCollectionName) w
            in case retrieve_old_collection client (name (heap ! base)) w of
                 (oldCollectionName, existingSynonyms, w) \<Rightarrow>
                   (case create_new_collection client newCollectionName
                           (heap ! newCollectionSchema) w of
                      (Inl f, w) \<Rightarrow> (Inl f, w, heap)
                    | (Inr u, w) \<Rightarrow>
                        (case index_files rt client dir (heap ! newCollectionSchema)
                                htmlFiles w of
                           (Inl f, w) \<Rightarrow> (Inl f, w, heap)
                         | (Inr u, w) \<Rightarrow>
                             (let w = carry_synonyms client newCollectionName existingSynonyms w;
                                  w = upsert_alias client (name (heap ! base))
                                        newCollectionName w;
                                  w = delete_old_collection client oldCollectionName w;
                                  w = report Info
                                        (ContentIndexed (name (heap ! base)) newCollectionName) w
                              in (Inr (), w, heap)))))))))"

section \<open>Reading a trace\<close>

text \<open>The calls to the engine in a trace, in order, and the documents submitted.\<close>

fun requests :: "'m event list \<Rightarrow> 'm request list" where
  "requests [] = []"
| "requests (Request r ok # es) = r # requests es"
| "requests (Report l m # es) = requests es"

fun submitted :: "'m request list \<Rightarrow> document list" where
  "submitted [] = []"
| "submitted (DocumentsCreate c d # rs) = d # submitted rs"
| "submitted (r # rs) = submitted rs"

text \<open>The pages that the loop over the files has come to, in order.\<close>

fun indexed :: "'m event list \<Rightarrow> string list" where
  "indexed [] = []"
| "indexed (Report l (Indexing p) # es) = p # indexed es"
| "indexed (e # es) = indexed es"

fun is_read :: "'m request \<Rightarrow> bool" where
  "is_read (AliasesRetrieve a) = True"
| "is_read (SynonymsRetrieve c) = True"
| "is_read r = False"

fun is_collections_create :: "'m request \<Rightarrow> bool" where
  "is_collections_create (CollectionsCreate sch) = True"
| "is_collections_create r = False"

fun is_documents_create :: "'m request \<Rightarrow> bool" where
  "is_documents_create (DocumentsCreate c d) = True"
| "is_documents_create r = False"

fun is_synonyms_upsert :: "'m request \<Rightarrow> bool" where
  "is_synonyms_upsert (SynonymsUpsert c i ts) = True"
| "is_synonyms_upsert r = False"

fun is_aliases_upsert :: "'m request \<Rightarrow> bool" where
  "is_aliases_upsert (AliasesUpsert a c) = True"
| "is_aliases_upsert r = False"

fun is_collections_delete :: "'m request \<Rightarrow> bool" where
  "is_collections_delete (CollectionsDelete c) = True"
| "is_collections_delete r = False"

section \<open>A small engine and runtime for concrete runs\<close>

text \<open>
  An engine with collections, aliases, synonym rules and documents, in which the
  requests selected by \<open>down\<close> fail as by a network error, and requests on a collection
  or alias that does not exist fail too.
\<close>

record sim_state =
  sim_collections :: "string list"
  sim_aliases :: "(string \<times> string) list"
  sim_synonyms :: "(string \<times> synonym) list"
  sim_documents :: "(string \<times> document) list"

definition sim_typesense :: "(unit request \<Rightarrow> bool) \<Rightarrow> (sim_state, unit) typesense" where
  "sim_typesense down =
     \<lparr>aliases_retrieve = (\<lambda>a s.
        if down (AliasesRetrieve a) then (Inl ''network error'', s)
        else (case map_of (sim_aliases s) a of
                None \<Rightarrow> (Inl ''Not Found'', s)
              | Some c \<Rightarrow> (Inr (Some c), s))),
      synonyms_retrieve = (\<lambda>c s.
        if down (SynonymsRetrieve c) then (Inl ''network error'', s)
        else if c \<notin> set (sim_collections s) then (Inl ''Not Found'', s)
        else (Inr (Some (map snd (filter (\<lambda>p. fst p = c) (sim_synonyms s)))), s)),
      collections_create = (\<lambda>sch s.
        if down (CollectionsCreate sch) then (Inl ''network error'', s)
        else if name sch \<in> set (sim_collections s) then (Inl ''Conflict'', s)
        else (Inr (), s\<lparr>sim_collections := sim_collections s @ [name sch]\<rparr>)),
      documents_create = (\<lambda>c d s.
        if down (DocumentsCreate c d) then (Inl ''network error'', s)
        else if c \<notin> set (sim_collections s) then (Inl ''Not Found'', s)
        else (Inr (), s\<lparr>sim_documents := sim_documents s @ [(c, d)]\<rparr>)),
      synonyms_upsert = (\<lambda>c i ts s.
        if down (SynonymsUpsert c i ts) then (Inl ''network error'', s)
        else if c \<notin> set (sim_collections s) then (Inl ''Not Found'', s)
        else (Inr (), s\<lparr>sim_synonyms :=
                filter (\<lambda>p. \<not> (fst p = c \<and> syn_id (snd p) = i)) (sim_synonyms s)
                @ [(c, \<lparr>syn_id = i, syn_synonyms = ts\<rparr>)]\<rparr>)),
      aliases_upsert = (\<lambda>a c s.
        if down (AliasesUpsert a c) then (Inl ''network error'', s)
        else (Inr (), s\<lparr>sim_aliases := AList.update a c (sim_aliases s)\<rparr>)),
      collections_delete = (\<lambda>c s.
        if down (CollectionsDelete c) then (Inl ''network error'', s)
        else if c \<notin> set (sim_collections s) then (Inl ''Not Found'', s)
        else (Inr (), s\<lparr>sim_collections := removeAll c (sim_collections s),
                         sim_synonyms := filter (\<lambda>p. fst p \<noteq> c) (sim_synonyms s),
                         sim_documents := filter (\<lambda>p. fst p \<noteq> c) (sim_documents s)\<rparr>))\<rparr>"

text \<open>
  A runtime over a table of files (path and text) and a table of parsed pages (text and
  its marked elements); a text not in the second table has no marked element.
  \<open>parseFloat\<close> is not needed by the runs below and answers \<open>NaN\<close>.
\<close>

definition sim_runtime ::
  "(string \<times> string) list \<Rightarrow> (string \<times> (string \<times> string) list) list \<Rightarrow> runtime" where
  "sim_runtime files pages =
     \<lparr>parseFloat = (\<lambda>v. NaN),
      marked_elements = (\<lambda>text. case map_of pages text of None \<Rightarrow> [] | Some es \<Rightarrow> es),
      readFile = (\<lambda>file. case map_of files file of
                            None \<Rightarrow> Inl ''ENOENT'' | Some text \<Rightarrow> Inr text),
      getHTMLFilesRecursively = (\<lambda>d r excl. Inr (map fst files))\<rparr>"

section \<open>A concrete site\<close>

text \<open>
  A schema \<open>docs\<close>, the options of the plugin, an engine in which the alias \<open>docs\<close> points
  to the collection \<open>docs_1\<close> with one synonym rule, and a site of one page with two
  elements marked \<open>tags\<close>.
\<close>

definition demo_schema :: collection_schema where
  "demo_schema =
     \<lparr>name = ''docs'',
      schema_fields =
        [\<lparr>field_name = ''title'', field_type = ''string''\<rparr>,
         \<lparr>field_name = ''tags'', field_type = ''string[]''\<rparr>,
         \<lparr>field_name = ''page_path'', field_type = ''string''\<rparr>,
         \<lparr>field_name = ''page_priority_score'', field_type = ''int32''\<rparr>]\<rparr>"

definition demo_options :: "unit plugin_options" where
  "demo_options =
     \<lparr>collectionSchema = 0, publicDir = Some ''public'', rootDir = None, exclude = [],
      generateNewCollectionName = (\<lambda>sch. Inr (name sch @ ''_2''))\<rparr>"

definition demo_engine :: sim_state where
  "demo_engine =
     \<lparr>sim_collections = [''docs_1''],
      sim_aliases = [(''docs'', ''docs_1'')],
      sim_synonyms = [(''docs_1'', \<lparr>syn_id = ''js'', syn_synonyms = [''js'', ''javascript'']\<rparr>)],
      sim_documents = []\<rparr>"

definition demo_page :: string where
  "demo_page = ''<i data-typesense-field=tags>go</i><i data-typesense-field=tags>rust</i>''"

definition demo_runtime :: runtime where
  "demo_runtime =
     sim_runtime [(''public/a/index.html'', demo_page)]
       [(demo_page, [(''tags'', ''go''), (''tags'', ''rust'')])]"

text \<open>An engine in which every request reaches the server, and one in which the upsert
  of the synonym rule \<open>js\<close> fails.\<close>

definition never :: "unit request \<Rightarrow> bool" where
  "never r = False"

fun js_rule_down :: "unit request \<Rightarrow> bool" where
  "js_rule_down (SynonymsUpsert c i ts) = (i = ''js'')"
| "js_rule_down r = False"

definition demo_world :: "(sim_state, unit) world" where
  "demo_world = \<lparr>engine = demo_engine, trace = []\<rparr>"



definition path_page :: string where
  "path_page = ''<i data-typesense-field=page_path>/x/</i>''"

definition path_runtime :: runtime where
  "path_runtime =
     sim_runtime [(''public/a/index.html'', path_page)] [(path_page, [(''page_path'', ''/x/'')])]"

definition two_paths_page :: string where
  "two_paths_page =
     ''<i data-typesense-field=page_path>/x/</i><i data-typesense-field=page_path>/y/</i>''"

definition two_paths_runtime :: runtime where
  "two_paths_runtime =
     sim_runtime [(''public/a/index.html'', two_paths_page)]
       [(two_paths_page, [(''page_path'', ''/x/''), (''page_path'', ''/y/'')])]"




definition path_list_schema :: collection_schema where
  "path_list_schema =
     \<lparr>name = ''docs_1'',
      schema_fields = [\<lparr>field_name = ''page_path'', field_type = ''string[]''\<rparr>]\<rparr>"

definition score_page :: string where
  "score_page =
     ''<i data-typesense-field=page_priority_score>3</i><i data-typesense-field=page_priority_score>5</i>''"

definition score_runtime :: runtime where
  "score_runtime =
     sim_runtime [(''public/a/index.html'', score_page)]
       [(score_page, [(''page_priority_score'', ''3''), (''page_priority_score'', ''5'')])]"



definition plain_page :: string where
  "plain_page = ''<p>hello</p>''"

definition plain_runtime :: runtime where
  "plain_runtime = sim_runtime [(''public/a/index.html'', plain_page)] []"

text \<open>Four runs: on the site above with the upsert of the alias failing, on the same
  site with the creation of the collection failing, on the site of the page with the
  unknown field, and one in which the listing of the files fails.\<close>

definition swap_failure_run :: "(failure + unit) \<times> (sim_state, unit) world \<times> unit heap" where
  "swap_failure_run =
     onPostBuild demo_runtime (Inr (sim_typesense is_aliases_upsert)) demo_options
       [demo_schema] demo_engine"

definition create_failure_run :: "(failure + unit) \<times> (sim_state, unit) world \<times> unit heap" where
  "create_failure_run =
     onPostBuild demo_runtime (Inr (sim_typesense is_collections_create)) demo_options
       [demo_schema] demo_engine"


definition listing_failure_runtime :: runtime where
  "listing_failure_runtime =
     demo_runtime\<lparr>getHTMLFilesRecursively := \<lambda>d r excl. Inl ''ENOENT: no such directory''\<rparr>"

definition listing_failure_run :: "(failure + unit) \<times> (sim_state, unit) world \<times> unit heap" where
  "listing_failure_run =
     onPostBuild listing_failure_runtime (Inr (sim_typesense never)) demo_options
       [demo_schema] demo_engine"

section \<open>Notions used in the statements and proofs\<close>

text \<open>An element whose attribute names no field of the schema.\<close>

definition unknown_field :: "field_definition list \<Rightarrow> string \<times> string \<Rightarrow> bool" where
  "unknown_field fds e = (find (\<lambda>g. field_name g = fst e) fds = None)"

text \<open>An element that names a field of an array type under a name that every object
  inherits: \<open>push\<close> is then called on the inherited member.\<close>

definition throwing_field :: "field_definition list \<Rightarrow> string \<times> string \<Rightarrow> bool" where
  "throwing_field fds e =
     (case find (\<lambda>g. field_name g = fst e) fds of
        None \<Rightarrow> False
      | Some fd \<Rightarrow> str_includes (field_type fd) ''[]'' \<and> fst e \<in> set object_prototype_keys)"

text \<open>An element at which the loop over the elements ends.\<close>

definition stops_loop :: "field_definition list \<Rightarrow> string \<times> string \<Rightarrow> bool" where
  "stops_loop fds e = (unknown_field fds e \<or> throwing_field fds e)"

text \<open>The path under which the page of a file is indexed (line 163).\<close>

definition page_path_of :: "string option \<Rightarrow> string \<Rightarrow> string" where
  "page_path_of dir file = remove_index_html (replace_first (js_string_of dir) file)"

text \<open>The old collection that the lookup of the alias discovers, from the response of the
  engine: none when the lookup fails or names no collection.\<close>

definition discovered :: "string + string option \<Rightarrow> string option" where
  "discovered r = (case r of Inl e \<Rightarrow> None | Inr c \<Rightarrow> if_truthy c)"

text \<open>The texts of the elements that name the field \<open>f\<close>, in document order.\<close>

definition texts_of :: "string \<Rightarrow> (string \<times> string) list \<Rightarrow> string list" where
  "texts_of f es = map snd (filter (\<lambda>e. fst e = f) es)"

text \<open>The elements of a property that holds an array; no element otherwise.\<close>

definition arr_of :: "jsval option \<Rightarrow> jsval list" where
  "arr_of x = (case x of Some (JArray xs) \<Rightarrow> xs | _ \<Rightarrow> [])"

text \<open>The invariant of the loop over the elements: an own property named as a field of
  an array type holds an array, and its name is not an inherited one.\<close>

definition arrays_are_arrays :: "field_definition list \<Rightarrow> document \<Rightarrow> bool" where
  "arrays_are_arrays fds doc =
     (\<forall>k fd v. find (\<lambda>g. field_name g = k) fds = Some fd
        \<longrightarrow> str_includes (field_type fd) ''[]'' \<longrightarrow> map_of doc k = Some v
        \<longrightarrow> (\<exists>xs. v = JArray xs) \<and> k \<notin> set object_prototype_keys)"

text \<open>From the world \<open>w\<close> to the world \<open>w'\<close> the trace grows, and the calls added to it
  are \<open>rs\<close>.\<close>

definition emits :: "('s, 'm) world \<Rightarrow> ('s, 'm) world \<Rightarrow> 'm request list \<Rightarrow> bool" where
  "emits w w' rs = (\<exists>es. trace w' = trace w @ es \<and> requests es = rs)"

text \<open>Some call that creates a collection has failed.\<close>

fun create_failed :: "'m event list \<Rightarrow> bool" where
  "create_failed [] = False"
| "create_failed (Request (CollectionsCreate sch) ok # es) = (\<not> ok \<or> create_failed es)"
| "create_failed (e # es) = create_failed es"

text \<open>
  The calls of a run in their order: the alias \<open>a\<close> is read, then the synonyms of the old
  collection if there is one; the collection \<open>sent\<close> is created; the documents \<open>ds\<close> are
  submitted to the collection \<open>n\<close>; unless the run was aborted, the rules \<open>syns\<close> are
  upserted, the alias is upserted and the old collection, if there is one, is deleted.
\<close>

definition run_requests ::
  "string \<Rightarrow> string \<Rightarrow> 'm collection_schema_scheme \<Rightarrow> string option \<Rightarrow> synonym list
     \<Rightarrow> document list \<Rightarrow> bool \<Rightarrow> 'm request list" where
  "run_requests a n sent old syns ds aborted =
     AliasesRetrieve a
       # (case if_truthy old of None \<Rightarrow> [] | Some c \<Rightarrow> [SynonymsRetrieve c])
       @ CollectionsCreate sent # map (DocumentsCreate n) ds
       @ (if aborted then []
          else map (\<lambda>x. SynonymsUpsert n (syn_id x) (syn_synonyms x)) syns
               @ AliasesUpsert a n
               # (case if_truthy old of None \<Rightarrow> [] | Some c \<Rightarrow> [CollectionsDelete c]))"

section \<open>Facts about traces and documents\<close>

lemma requests_append [simp]: "requests (xs @ ys) = requests xs @ requests ys"
  by (induction xs rule: requests.induct) auto

lemma indexed_append [simp]: "indexed (xs @ ys) = indexed xs @ indexed ys"
  by (induction xs rule: indexed.induct) auto

lemma submitted_append [simp]: "submitted (xs @ ys) = submitted xs @ submitted ys"
  by (induction xs rule: submitted.induct) auto

lemma trace_report [simp]: "trace (report l m w) = trace w @ [Report l m]"
  by (simp add: report_def)

lemma engine_report [simp]: "engine (report l m w) = engine w"
  by (simp add: report_def)

lemma invoke_trace:
  "invoke operation req w = (r, w') \<Longrightarrow> trace w' = trace w @ [Request req (\<not> isl r)]"
  by (auto simp: invoke_def split: prod.splits)

lemma map_of_set_property:
  "map_of (set_property obj k v) k' =
     (if k = ''__proto__'' then map_of obj k' else if k' = k then Some v else map_of obj k')"
  by (simp add: set_property_def update_conv')

lemma get_property_own:
  "k \<notin> set object_prototype_keys \<Longrightarrow> get_property obj k = map_of obj k"
  by (auto simp: get_property_def object_prototype_keys_def split: option.splits)

lemma get_property_score [simp]:
  "get_property obj ''page_priority_score'' = map_of obj ''page_priority_score''"
  by (rule get_property_own) (simp add: object_prototype_keys_def)

lemma map_of_add_page_fields:
  "map_of (add_page_fields p doc) k =
     (if k = ''page_priority_score''
        then Some (js_or (map_of doc ''page_priority_score'') (JNumber (Num 10)))
      else if k = ''page_path'' then Some (JString p)
      else map_of doc k)"
  by (simp add: add_page_fields_def Let_def map_of_set_property)

lemma each_callback_map_of:
  assumes "each_callback pf fds doc e = Inr d"
  shows "(fst e \<noteq> k \<longrightarrow> map_of d k = map_of doc k)
       \<and> (map_of doc k \<noteq> None \<longrightarrow> map_of d k \<noteq> None)
       \<and> (fst e = k \<and> k \<noteq> ''__proto__'' \<longrightarrow> map_of d k \<noteq> None)"
  using assms
  by (cases e)
     (auto simp: each_callback_def Let_def map_of_set_property
           split: option.splits if_splits jsval.splits)




lemma arrays_are_arrays_Nil: "arrays_are_arrays fds []"
  by (simp add: arrays_are_arrays_def)

lemma each_callback_cases:
  assumes "arrays_are_arrays fds doc"
  shows "(unknown_field fds e
            \<and> each_callback pf fds doc e = Inl (Panicked (FieldNotDefined (fst e))))
       \<or> (throwing_field fds e
            \<and> each_callback pf fds doc e = Inl (Thrown ''TypeError: push is not a function''))
       \<or> (\<not> stops_loop fds e
            \<and> (\<exists>d. each_callback pf fds doc e = Inr d \<and> arrays_are_arrays fds d))"
proof (cases e)
  case (Pair a v)
  show ?thesis
  proof (cases "find (\<lambda>g. field_name g = a) fds")
    case None
    with Pair show ?thesis by (simp add: each_callback_def unknown_field_def)
  next
    case (Some fd)
    show ?thesis
    proof (cases "str_includes (field_type fd) ''[]''")
      case False
      with Pair Some assms show ?thesis
        by (auto simp: each_callback_def unknown_field_def throwing_field_def stops_loop_def
              arrays_are_arrays_def map_of_set_property)
    next
      case True
      from assms Some True
      have arr: "\<And>x. map_of doc a = Some x \<Longrightarrow> (\<exists>xs. x = JArray xs) \<and> a \<notin> set object_prototype_keys"
        unfolding arrays_are_arrays_def by blast
      show ?thesis
      proof (cases "a \<in> set object_prototype_keys")
        case inh: True
        with arr have own: "map_of doc a = None"
          by (cases "map_of doc a") auto
        with inh have g: "get_property doc a = Some JObject"
          by (simp add: get_property_def)
        have "get_property (set_property doc a JObject) a = Some JObject"
          using inh by (simp add: get_property_def set_property_def update_conv')
        with g Pair Some True inh show ?thesis
          by (simp add: each_callback_def throwing_field_def js_or_def Let_def)
      next
        case ninh: False
        then have np: "a \<noteq> ''__proto__''"
          by (auto simp: object_prototype_keys_def)
        have "\<exists>xs. js_or (get_property doc a) (JArray []) = JArray xs"
        proof (cases "map_of doc a")
          case None
          with ninh show ?thesis by (simp add: js_or_def get_property_own)
        next
          case (Some x)
          with arr obtain xs where "x = JArray xs" by blast
          with Some ninh show ?thesis by (simp add: js_or_def get_property_own)
        qed
        then obtain xs where xs: "js_or (get_property doc a) (JArray []) = JArray xs" ..
        have g: "get_property (set_property doc a (JArray xs)) a = Some (JArray xs)"
          using ninh np by (simp add: get_property_own map_of_set_property)
        let ?d = "set_property (set_property doc a (JArray xs)) a
                    (JArray (xs @ [typeCastValue pf fd v]))"
        from Pair Some True xs g have r: "each_callback pf fds doc e = Inr ?d"
          by (simp add: each_callback_def Let_def)
        from assms ninh np Some True have "arrays_are_arrays fds ?d"
          by (auto simp: arrays_are_arrays_def map_of_set_property)
        with r Pair Some True ninh show ?thesis
          by (auto simp: stops_loop_def unknown_field_def throwing_field_def)
      qed
    qed
  qed
qed

lemma each_result:
  assumes "arrays_are_arrays fds doc"
  shows "case find (stops_loop fds) es of
           Some e \<Rightarrow>
             each pf fds es doc =
               (if unknown_field fds e then Inl (Panicked (FieldNotDefined (fst e)))
                else Inl (Thrown ''TypeError: push is not a function''))
         | None \<Rightarrow> \<exists>d. each pf fds es doc = Inr d"
  using assms
proof (induction es arbitrary: doc)
  case Nil
  then show ?case by simp
next
  case (Cons e es)
  from each_callback_cases[OF Cons.prems, of e pf]
  consider
    (u) "unknown_field fds e"
        "each_callback pf fds doc e = Inl (Panicked (FieldNotDefined (fst e)))"
  | (t) "throwing_field fds e"
        "each_callback pf fds doc e = Inl (Thrown ''TypeError: push is not a function'')"
  | (n) d where "\<not> stops_loop fds e" "each_callback pf fds doc e = Inr d"
        "arrays_are_arrays fds d"
    by blast
  then show ?case
  proof cases
    case u
    then show ?thesis by (simp add: stops_loop_def)
  next
    case t
    then have "\<not> unknown_field fds e"
      by (auto simp: throwing_field_def unknown_field_def split: option.splits)
    with t show ?thesis by (simp add: stops_loop_def)
  next
    case n
    from Cons.IH[OF n(3)] n(1,2) show ?thesis by (auto split: option.splits)
  qed
qed

lemma each_array_gen:
  assumes "each pf fds es doc = Inr doc'"
    and "find (\<lambda>g. field_name g = f) fds = Some fd"
    and "str_includes (field_type fd) ''[]''"
    and "map_of doc f = None \<or> (\<exists>xs. map_of doc f = Some (JArray xs))"
  shows "map_of doc' f =
           (if map_of doc f = None \<and> f \<notin> fst ` set es then None
            else Some (JArray (arr_of (map_of doc f)
                   @ map (typeCastValue pf fd) (texts_of f es))))"
  using assms(1,4)
proof (induction es arbitrary: doc)
  case Nil
  then show ?case by (auto simp: arr_of_def texts_of_def)
next
  case (Cons e es)
  obtain a v where e: "e = (a, v)" by (cases e)
  from Cons.prems(1) obtain d
    where d: "each_callback pf fds doc e = Inr d" "each pf fds es d = Inr doc'"
    by (auto split: sum.splits)
  show ?case
  proof (cases "a = f")
    case True
    from d(1) e True assms(2,3) Cons.prems(2)
    have md: "map_of d f = Some (JArray (arr_of (map_of doc f) @ [typeCastValue pf fd v]))"
      by (auto simp: each_callback_def Let_def get_property_def set_property_def
               update_conv' js_or_def arr_of_def
               split: jsval.splits if_splits option.splits)
    from Cons.IH[OF d(2)] md e True show ?thesis
      by (simp add: arr_of_def texts_of_def)
  next
    case False
    from each_callback_map_of[OF d(1), of f] e False have md: "map_of d f = map_of doc f"
      by simp
    from Cons.IH[OF d(2)] md Cons.prems(2) e False show ?thesis
      by (auto simp: texts_of_def)
  qed
qed

lemma each_scalar_gen:
  assumes "each pf fds es doc = Inr doc'"
    and "find (\<lambda>g. field_name g = f) fds = Some fd"
    and "\<not> str_includes (field_type fd) ''[]''"
    and "f \<noteq> ''__proto__''"
  shows "map_of doc' f =
           (case rev (texts_of f es) of
              [] \<Rightarrow> map_of doc f
            | v # _ \<Rightarrow> Some (typeCastValue pf fd v))"
  using assms(1)
proof (induction es arbitrary: doc)
  case Nil
  then show ?case by (simp add: texts_of_def)
next
  case (Cons e es)
  obtain a v where e: "e = (a, v)" by (cases e)
  from Cons.prems(1) obtain d
    where d: "each_callback pf fds doc e = Inr d" "each pf fds es d = Inr doc'"
    by (auto split: sum.splits)
  show ?case
  proof (cases "a = f")
    case True
    from d(1) e True assms(2,3,4)
    have md: "map_of d f = Some (typeCastValue pf fd v)"
      by (auto simp: each_callback_def map_of_set_property)
    from Cons.IH[OF d(2)] md e True show ?thesis
      by (auto simp: texts_of_def split: list.splits)
  next
    case False
    from each_callback_map_of[OF d(1), of f] e False have md: "map_of d f = map_of doc f"
      by simp
    from Cons.IH[OF d(2)] md e False show ?thesis
      by (auto simp: texts_of_def split: list.splits)
  qed
qed

text \<open>A scalar field named \<open>__proto__\<close> never becomes a property of the document.\<close>

lemma each_proto:
  "each pf fds es doc = Inr doc' \<Longrightarrow> map_of doc' ''__proto__'' = map_of doc ''__proto__''"
proof (induction es arbitrary: doc)
  case Nil
  then show ?case by simp
next
  case (Cons e es)
  from Cons.prems obtain d
    where d: "each_callback pf fds doc e = Inr d" "each pf fds es d = Inr doc'"
    by (auto split: sum.splits)
  from d(1) have "map_of d ''__proto__'' = map_of doc ''__proto__''"
    by (cases e)
       (auto simp: each_callback_def Let_def map_of_set_property
             split: option.splits if_splits jsval.splits)
  with Cons.IH[OF d(2)] show ?case by simp
qed

lemma emits_refl: "emits w w []"
  by (simp add: emits_def)

lemma emits_report: "emits w w' rs \<Longrightarrow> emits w (report l m w') rs"
  by (auto simp: emits_def)

lemma emits_invoke: "invoke operation req w = (r, w') \<Longrightarrow> emits w w' [req]"
  by (drule invoke_trace) (simp add: emits_def)

lemma emits_trans: "emits w w1 rs1 \<Longrightarrow> emits w1 w2 rs2 \<Longrightarrow> emits w w2 (rs1 @ rs2)"
  by (auto simp: emits_def)

lemma emits_requests: "emits w w' rs \<Longrightarrow> requests (trace w') = requests (trace w) @ rs"
  by (auto simp: emits_def)

lemma indexContent_submits:
  assumes "each (parseFloat rt) (schema_fields sch) (marked_elements rt text) [] = Inr doc"
    and "doc \<noteq> []"
    and "indexContentInTypesense rt client text p sch w = (r, w')"
  shows "emits w w' [DocumentsCreate (name sch) (add_page_fields p doc)]"
proof -
  let ?d = "add_page_fields p doc"
  let ?w1 = "report Verbose (CreatingDocument ?d) w"
  obtain r1 w2 where inv: "invoke (documents_create client (name sch) ?d)
      (DocumentsCreate (name sch) ?d) ?w1 = (r1, w2)"
    by (cases "invoke (documents_create client (name sch) ?d) (DocumentsCreate (name sch) ?d) ?w1")
  have "emits w ?w1 []"
    by (intro emits_report emits_refl)
  from emits_trans[OF this emits_invoke[OF inv]]
  have e2: "emits w w2 [DocumentsCreate (name sch) ?d]"
    by simp
  from assms inv have "\<exists>l m. w' = report l m w2"
    by (auto simp: indexContentInTypesense_def isObjectEmpty_def Let_def split: sum.splits)
  with e2 show ?thesis
    by (auto intro: emits_report)
qed

lemma indexContent_emits:
  assumes "indexContentInTypesense rt client text p sch w = (r, w')"
  shows "\<exists>ds. emits w w' (map (DocumentsCreate (name sch)) ds)"
proof (cases "each (parseFloat rt) (schema_fields sch) (marked_elements rt text) []")
  case (Inl f)
  with assms have "w' = w \<or> (\<exists>l m. w' = report l m w)"
    by (cases f) (auto simp: indexContentInTypesense_def)
  then have "emits w w' (map (DocumentsCreate (name sch)) [])"
    by (auto intro: emits_report emits_refl)
  then show ?thesis ..
next
  case (Inr doc)
  show ?thesis
  proof (cases "doc = []")
    case True
    with Inr assms have "\<exists>l m. w' = report l m w"
      by (auto simp: indexContentInTypesense_def isObjectEmpty_def)
    then have "emits w w' (map (DocumentsCreate (name sch)) [])"
      by (auto intro: emits_report emits_refl)
    then show ?thesis ..
  next
    case False
    from indexContent_submits[OF Inr False assms]
    have "emits w w' (map (DocumentsCreate (name sch)) [add_page_fields p doc])"
      by simp
    then show ?thesis ..
  qed
qed

lemma index_files_emits:
  assumes "index_files rt client dir sch files w = (r, w')"
  shows "\<exists>ds. emits w w' (map (DocumentsCreate (name sch)) ds)"
  using assms
proof (induction files arbitrary: w)
  case Nil
  then have "emits w w' (map (DocumentsCreate (name sch)) [])"
    by (simp add: emits_refl)
  then show ?case ..
next
  case (Cons f0 files)
  let ?p = "remove_index_html (replace_first (js_string_of dir) f0)"
  let ?w1 = "report Verbose (Indexing ?p) w"
  have e0: "emits w ?w1 []"
    by (intro emits_report emits_refl)
  show ?case
  proof (cases "readFile rt f0")
    case (Inl e)
    with Cons.prems have "w' = ?w1" by (auto simp: Let_def)
    with e0 have "emits w w' (map (DocumentsCreate (name sch)) [])" by simp
    then show ?thesis ..
  next
    case (Inr contents)
    obtain r1 w2 where ic: "indexContentInTypesense rt client contents ?p sch ?w1 = (r1, w2)"
      by (cases "indexContentInTypesense rt client contents ?p sch ?w1")
    from indexContent_emits[OF ic] obtain ds1 where
      "emits ?w1 w2 (map (DocumentsCreate (name sch)) ds1)" ..
    from emits_trans[OF e0 this]
    have e1: "emits w w2 (map (DocumentsCreate (name sch)) ds1)" by simp
    show ?thesis
    proof (cases r1)
      case (Inl f)
      with Cons.prems Inr ic have "w' = w2" by (auto simp: Let_def)
      with e1 show ?thesis by blast
    next
      case r1: (Inr u)
      with Cons.prems Inr ic
      have "index_files rt client dir sch files w2 = (r, w')" by (auto simp: Let_def)
      from Cons.IH[OF this] obtain ds2 where
        "emits w2 w' (map (DocumentsCreate (name sch)) ds2)" ..
      from emits_trans[OF e1 this]
      have "emits w w' (map (DocumentsCreate (name sch)) (ds1 @ ds2))" by simp
      then show ?thesis ..
    qed
  qed
qed

lemma getExistingSynonyms_emits:
  assumes "getExistingSynonyms client c w = (syns, w')"
  shows "emits w w' [SynonymsRetrieve c]"
proof -
  obtain r w1 where inv: "invoke (synonyms_retrieve client c) (SynonymsRetrieve c) w = (r, w1)"
    by (cases "invoke (synonyms_retrieve client c) (SynonymsRetrieve c) w")
  from assms inv have "w' = w1 \<or> (\<exists>l m. w' = report l m w1)"
    by (auto simp: getExistingSynonyms_def split: sum.splits)
  with emits_invoke[OF inv] show ?thesis
    by (auto intro: emits_report)
qed

lemma upsertSynonyms_emits:
  "emits w (upsertSynonyms client c syns w)
     (map (\<lambda>x. SynonymsUpsert c (syn_id x) (syn_synonyms x)) syns)"
proof (induction syns arbitrary: w)
  case Nil
  show ?case by (simp add: emits_refl)
next
  case (Cons x syns)
  let ?req = "SynonymsUpsert c (syn_id x) (syn_synonyms x)"
  obtain r w1 where inv:
    "invoke (synonyms_upsert client c (syn_id x) (syn_synonyms x)) ?req w = (r, w1)"
    by (cases "invoke (synonyms_upsert client c (syn_id x) (syn_synonyms x)) ?req w")
  note e1 = emits_invoke[OF inv]
  show ?case
  proof (cases r)
    case (Inl e)
    let ?w2 = "report ConsoleWarn (FailedToUpsertSynonym (syn_id x) e) w1"
    from Inl inv have "upsertSynonyms client c (x # syns) w = upsertSynonyms client c syns ?w2"
      by simp
    with emits_trans[OF emits_report[OF e1] Cons.IH[of ?w2]] show ?thesis
      by simp
  next
    case (Inr u)
    from Inr inv have "upsertSynonyms client c (x # syns) w = upsertSynonyms client c syns w1"
      by simp
    with emits_trans[OF e1 Cons.IH[of w1]] show ?thesis
      by simp
  qed
qed

lemma retrieve_old_collection_emits:
  assumes "retrieve_old_collection client a w = (old, syns, w')"
  shows "emits w w' (AliasesRetrieve a #
           (case if_truthy old of None \<Rightarrow> [] | Some c \<Rightarrow> [SynonymsRetrieve c]))"
proof -
  obtain r w1 where inv: "invoke (aliases_retrieve client a) (AliasesRetrieve a) w = (r, w1)"
    by (cases "invoke (aliases_retrieve client a) (AliasesRetrieve a) w")
  note e1 = emits_invoke[OF inv]
  show ?thesis
  proof (cases r)
    case (Inl e)
    with assms inv have "old = None" "w' = report Warn (ErrorRetrievingOld e) w1"
      by (auto simp: retrieve_old_collection_def)
    with emits_report[OF e1] show ?thesis
      by (simp add: if_truthy_def)
  next
    case (Inr oldName)
    let ?w2 = "report Info (OldCollectionName oldName) w1"
    have e2: "emits w ?w2 [AliasesRetrieve a]"
      by (rule emits_report[OF e1])
    show ?thesis
    proof (cases "if_truthy oldName")
      case None
      with Inr assms inv have "old = oldName" "w' = ?w2"
        by (auto simp: retrieve_old_collection_def Let_def)
      with e2 None show ?thesis by simp
    next
      case (Some c)
      let ?w3 = "report Info (RetrievingSynonyms c) ?w2"
      obtain sy w4 where g: "getExistingSynonyms client c ?w3 = (sy, w4)"
        by (cases "getExistingSynonyms client c ?w3")
      from Some Inr assms inv g
      have o: "old = oldName" "w' = report Info (RetrievedSynonyms (length sy)) w4"
        by (auto simp: retrieve_old_collection_def Let_def)
      from emits_trans[OF emits_report[OF e2] getExistingSynonyms_emits[OF g]]
      have "emits w w4 [AliasesRetrieve a, SynonymsRetrieve c]" by simp
      from emits_report[OF this] o Some show ?thesis by simp
    qed
  qed
qed

lemma create_new_collection_emits:
  assumes "create_new_collection client n sch w = (r, w')"
  shows "emits w w' [CollectionsCreate sch]"
proof -
  let ?w1 = "report Info (CreatingCollection n) w"
  obtain r1 w2 where inv: "invoke (collections_create client sch) (CollectionsCreate sch) ?w1 = (r1, w2)"
    by (cases "invoke (collections_create client sch) (CollectionsCreate sch) ?w1")
  from emits_trans[OF emits_report[OF emits_refl] emits_invoke[OF inv]]
  have e: "emits w w2 [CollectionsCreate sch]" by simp
  from assms inv have "w' = w2 \<or> (\<exists>l m. w' = report l m w2)"
    by (auto simp: create_new_collection_def Let_def split: sum.splits)
  with e show ?thesis by (auto intro: emits_report)
qed

lemma carry_synonyms_emits:
  "emits w (carry_synonyms client n syns w)
     (map (\<lambda>x. SynonymsUpsert n (syn_id x) (syn_synonyms x)) syns)"
proof (cases "syns = []")
  case True
  then show ?thesis
    by (simp add: carry_synonyms_def emits_report emits_refl)
next
  case False
  let ?w1 = "report Info (UpsertingSynonyms (length syns)) w"
  have "emits w ?w1 []"
    by (intro emits_report emits_refl)
  from emits_trans[OF this upsertSynonyms_emits[of ?w1 client n syns]]
  have "emits w (upsertSynonyms client n syns ?w1)
          (map (\<lambda>x. SynonymsUpsert n (syn_id x) (syn_synonyms x)) syns)"
    by simp
  from emits_report[OF this] False show ?thesis
    by (simp add: carry_synonyms_def Let_def)
qed

lemma upsert_alias_emits: "emits w (upsert_alias client a n w) [AliasesUpsert a n]"
proof -
  let ?w1 = "report Info (UpsertingAlias a n) w"
  obtain r1 w2 where inv: "invoke (aliases_upsert client a n) (AliasesUpsert a n) ?w1 = (r1, w2)"
    by (cases "invoke (aliases_upsert client a n) (AliasesUpsert a n) ?w1")
  from emits_trans[OF emits_report[OF emits_refl] emits_invoke[OF inv]]
  have e: "emits w w2 [AliasesUpsert a n]" by simp
  from inv have "\<exists>l m. upsert_alias client a n w = report l m w2"
    by (auto simp: upsert_alias_def Let_def split: sum.splits)
  with e show ?thesis by (auto intro: emits_report)
qed

lemma delete_old_collection_emits:
  "emits w (delete_old_collection client old w)
     (case if_truthy old of None \<Rightarrow> [] | Some c \<Rightarrow> [CollectionsDelete c])"
proof (cases "if_truthy old")
  case None
  then show ?thesis by (simp add: delete_old_collection_def emits_refl)
next
  case (Some c)
  let ?w1 = "report Info (DeletingOldCollection c) w"
  obtain r1 w2 where inv: "invoke (collections_delete client c) (CollectionsDelete c) ?w1 = (r1, w2)"
    by (cases "invoke (collections_delete client c) (CollectionsDelete c) ?w1")
  from emits_trans[OF emits_report[OF emits_refl] emits_invoke[OF inv]]
  have e: "emits w w2 [CollectionsDelete c]" by simp
  from inv Some have "\<exists>l m. delete_old_collection client old w = report l m w2"
    by (auto simp: delete_old_collection_def Let_def split: sum.splits)
  with e Some show ?thesis by (auto intro: emits_report)
qed

lemma create_failed_append [simp]:
  "create_failed (xs @ ys) = (create_failed xs \<or> create_failed ys)"
  by (induction xs rule: create_failed.induct) auto

lemma create_failed_requests:
  "create_failed es \<Longrightarrow> list_ex is_collections_create (requests es)"
  by (induction es rule: create_failed.induct) auto

lemma emits_create_failed:
  assumes "emits w w' rs" and "\<not> list_ex is_collections_create rs"
  shows "create_failed (trace w') = create_failed (trace w)"
proof -
  from assms(1) obtain es where es: "trace w' = trace w @ es" "requests es = rs"
    by (auto simp: emits_def)
  from create_failed_requests[of es] es(2) assms(2) have "\<not> create_failed es"
    by auto
  with es(1) show ?thesis by simp
qed

lemma create_new_collection_result:
  assumes "create_new_collection client n sch w = (r, w')"
  shows "(r = Inr () \<and> create_failed (trace w') = create_failed (trace w))
       \<or> (\<exists>e. r = Inl (Panicked (CouldNotCreateCollection n e)) \<and> create_failed (trace w')
            \<and> last (trace w') = Report Panic (CouldNotCreateCollection n e))"
proof -
  let ?w1 = "report Info (CreatingCollection n) w"
  obtain r1 w2 where inv: "invoke (collections_create client sch) (CollectionsCreate sch) ?w1 = (r1, w2)"
    by (cases "invoke (collections_create client sch) (CollectionsCreate sch) ?w1")
  from invoke_trace[OF inv]
  have t: "trace w2 = trace w @ [Report Info (CreatingCollection n),
             Request (CollectionsCreate sch) (\<not> isl r1)]"
    by simp
  show ?thesis
  proof (cases r1)
    case (Inl e)
    with assms inv have "r = Inl (Panicked (CouldNotCreateCollection n e))"
      "w' = report Panic (CouldNotCreateCollection n e) w2"
      by (auto simp: create_new_collection_def Let_def)
    with t Inl show ?thesis by simp
  next
    case (Inr u)
    with assms inv have "r = Inr ()" "w' = w2"
      by (auto simp: create_new_collection_def Let_def)
    with t Inr show ?thesis by simp
  qed
qed

lemma invoke_indexed:
  "invoke operation req w = (r, w') \<Longrightarrow> indexed (trace w') = indexed (trace w)"
  by (drule invoke_trace) simp

lemma each_failure:
  "each pf fds es [] = Inl f \<Longrightarrow> (\<exists>a. f = Panicked (FieldNotDefined a)) \<or> (\<exists>e. f = Thrown e)"
  using each_result[OF arrays_are_arrays_Nil, where pf=pf and es=es and fds=fds]
  by (cases "find (stops_loop fds) es") (auto split: if_splits)

lemma indexContent_indexed:
  assumes "indexContentInTypesense rt client contents p sch w = (r, w')"
  shows "indexed (trace w') = indexed (trace w)"
proof (cases "each (parseFloat rt) (schema_fields sch) (marked_elements rt contents) []")
  case (Inl f)
  from each_failure[OF Inl] assms Inl show ?thesis
    by (auto simp: indexContentInTypesense_def)
next
  case (Inr doc)
  show ?thesis
  proof (cases "isObjectEmpty doc")
    case True
    with Inr assms show ?thesis by (auto simp: indexContentInTypesense_def)
  next
    case False
    let ?d = "add_page_fields p doc"
    let ?w1 = "report Verbose (CreatingDocument ?d) w"
    obtain r1 w2 where inv: "invoke (documents_create client (name sch) ?d)
        (DocumentsCreate (name sch) ?d) ?w1 = (r1, w2)"
      by (cases "invoke (documents_create client (name sch) ?d) (DocumentsCreate (name sch) ?d) ?w1")
    from invoke_indexed[OF inv] have "indexed (trace w2) = indexed (trace w)" by simp
    moreover from assms Inr False inv
    have "w' = report Verbose DocumentCreated w2
        \<or> (\<exists>e. w' = report Panic (CouldNotCreateDocument e) w2)"
      by (cases r1) (auto simp: indexContentInTypesense_def Let_def)
    ultimately show ?thesis by auto
  qed
qed

lemma getExistingSynonyms_indexed:
  assumes "getExistingSynonyms client c w = (syns, w')"
  shows "indexed (trace w') = indexed (trace w)"
proof -
  obtain r w1 where inv: "invoke (synonyms_retrieve client c) (SynonymsRetrieve c) w = (r, w1)"
    by (cases "invoke (synonyms_retrieve client c) (SynonymsRetrieve c) w")
  from assms inv
  have "w' = w1 \<or> (\<exists>e. w' = report ConsoleWarn (FailedToRetrieveSynonyms c e) w1)"
    by (cases r) (auto simp: getExistingSynonyms_def)
  with invoke_indexed[OF inv] show ?thesis by auto
qed

lemma upsertSynonyms_indexed:
  "indexed (trace (upsertSynonyms client c syns w)) = indexed (trace w)"
proof (induction syns arbitrary: w)
  case Nil
  show ?case by simp
next
  case (Cons x syns)
  let ?req = "SynonymsUpsert c (syn_id x) (syn_synonyms x)"
  obtain r w1 where inv:
    "invoke (synonyms_upsert client c (syn_id x) (syn_synonyms x)) ?req w = (r, w1)"
    by (cases "invoke (synonyms_upsert client c (syn_id x) (syn_synonyms x)) ?req w")
  from invoke_indexed[OF inv] inv Cons.IH show ?case
    by (cases r) simp_all
qed

lemma retrieve_old_collection_indexed:
  assumes "retrieve_old_collection client a w = (old, syns, w')"
  shows "indexed (trace w') = indexed (trace w)"
proof -
  obtain r w1 where inv: "invoke (aliases_retrieve client a) (AliasesRetrieve a) w = (r, w1)"
    by (cases "invoke (aliases_retrieve client a) (AliasesRetrieve a) w")
  note i1 = invoke_indexed[OF inv]
  show ?thesis
  proof (cases r)
    case (Inl e)
    with assms inv have "w' = report Warn (ErrorRetrievingOld e) w1"
      by (auto simp: retrieve_old_collection_def)
    with i1 show ?thesis by simp
  next
    case (Inr oldName)
    let ?w2 = "report Info (OldCollectionName oldName) w1"
    show ?thesis
    proof (cases "if_truthy oldName")
      case None
      with Inr assms inv have "w' = ?w2"
        by (auto simp: retrieve_old_collection_def Let_def)
      with i1 show ?thesis by simp
    next
      case (Some c)
      let ?w3 = "report Info (RetrievingSynonyms c) ?w2"
      obtain sy w4 where g: "getExistingSynonyms client c ?w3 = (sy, w4)"
        by (cases "getExistingSynonyms client c ?w3")
      from Some Inr assms inv g
      have "w' = report Info (RetrievedSynonyms (length sy)) w4"
        by (auto simp: retrieve_old_collection_def Let_def)
      with getExistingSynonyms_indexed[OF g] i1 show ?thesis by simp
    qed
  qed
qed

lemma create_new_collection_indexed:
  assumes "create_new_collection client n sch w = (r, w')"
  shows "indexed (trace w') = indexed (trace w)"
proof -
  let ?w1 = "report Info (CreatingCollection n) w"
  obtain r1 w2 where inv: "invoke (collections_create client sch) (CollectionsCreate sch) ?w1 = (r1, w2)"
    by (cases "invoke (collections_create client sch) (CollectionsCreate sch) ?w1")
  from assms inv
  have "w' = w2 \<or> (\<exists>e. w' = report Panic (CouldNotCreateCollection n e) w2)"
    by (cases r1) (auto simp: create_new_collection_def Let_def)
  with invoke_indexed[OF inv] show ?thesis by auto
qed

lemma carry_synonyms_indexed:
  "indexed (trace (carry_synonyms client n syns w)) = indexed (trace w)"
  by (simp add: carry_synonyms_def Let_def upsertSynonyms_indexed)

lemma upsert_alias_indexed:
  "indexed (trace (upsert_alias client a n w)) = indexed (trace w)"
proof -
  let ?w1 = "report Info (UpsertingAlias a n) w"
  obtain r1 w2 where inv: "invoke (aliases_upsert client a n) (AliasesUpsert a n) ?w1 = (r1, w2)"
    by (cases "invoke (aliases_upsert client a n) (AliasesUpsert a n) ?w1")
  from invoke_indexed[OF inv] inv show ?thesis
    by (auto simp: upsert_alias_def Let_def split: sum.splits)
qed

lemma delete_old_collection_indexed:
  "indexed (trace (delete_old_collection client old w)) = indexed (trace w)"
proof (cases "if_truthy old")
  case None
  then show ?thesis by (simp add: delete_old_collection_def)
next
  case (Some c)
  let ?w1 = "report Info (DeletingOldCollection c) w"
  obtain r1 w2 where inv: "invoke (collections_delete client c) (CollectionsDelete c) ?w1 = (r1, w2)"
    by (cases "invoke (collections_delete client c) (CollectionsDelete c) ?w1")
  from invoke_indexed[OF inv] inv Some show ?thesis
    by (auto simp: delete_old_collection_def Let_def split: sum.splits)
qed

lemma retrieve_old_collection_discovered:
  assumes "retrieve_old_collection client a w = (old, syns, w')"
  shows "if_truthy old = discovered (fst (aliases_retrieve client a (engine w)))"
proof -
  obtain r s1 where op: "aliases_retrieve client a (engine w) = (r, s1)"
    by (cases "aliases_retrieve client a (engine w)")
  let ?w1 = "w\<lparr>engine := s1, trace := trace w @ [Request (AliasesRetrieve a) (\<not> isl r)]\<rparr>"
  from op have inv: "invoke (aliases_retrieve client a) (AliasesRetrieve a) w = (r, ?w1)"
    by (simp add: invoke_def)
  show ?thesis
  proof (cases r)
    case (Inl e)
    with assms inv op show ?thesis
      by (simp add: retrieve_old_collection_def discovered_def if_truthy_def)
  next
    case (Inr oldName)
    with assms inv have "old = oldName"
      by (auto simp: retrieve_old_collection_def Let_def split: option.splits prod.splits)
    with Inr op show ?thesis by (simp add: discovered_def)
  qed
qed

lemma index_files_indexed:
  assumes "index_files rt client dir sch files w = (r, w')"
  shows "\<exists>ps. indexed (trace w') = indexed (trace w) @ ps
           \<and> prefix ps (map (page_path_of dir) files)
           \<and> (\<not> isl r \<longrightarrow> ps = map (page_path_of dir) files)"
  using assms
proof (induction files arbitrary: w)
  case Nil
  then have "indexed (trace w') = indexed (trace w) @ []
           \<and> prefix [] (map (page_path_of dir) [])
           \<and> (\<not> isl r \<longrightarrow> [] = map (page_path_of dir) [])"
    by simp
  then show ?case by (rule exI)
next
  case (Cons f0 files)
  let ?p = "page_path_of dir f0"
  let ?w1 = "report Verbose (Indexing ?p) w"
  have i1: "indexed (trace ?w1) = indexed (trace w) @ [?p]" by simp
  have pf: "prefix [?p] (map (page_path_of dir) (f0 # files))" by simp
  show ?case
  proof (cases "readFile rt f0")
    case (Inl e)
    with Cons.prems have "w' = ?w1" "isl r" by (auto simp: Let_def page_path_of_def)
    with i1 pf have "indexed (trace w') = indexed (trace w) @ [?p]
           \<and> prefix [?p] (map (page_path_of dir) (f0 # files))
           \<and> (\<not> isl r \<longrightarrow> [?p] = map (page_path_of dir) (f0 # files))"
      by simp
    then show ?thesis by (rule exI)
  next
    case (Inr contents)
    obtain r1 w2 where ic: "indexContentInTypesense rt client contents ?p sch ?w1 = (r1, w2)"
      by (cases "indexContentInTypesense rt client contents ?p sch ?w1")
    from indexContent_indexed[OF ic] i1
    have i2: "indexed (trace w2) = indexed (trace w) @ [?p]" by simp
    show ?thesis
    proof (cases r1)
      case (Inl x)
      with Cons.prems Inr ic have "w' = w2" "isl r" by (auto simp: Let_def page_path_of_def)
      with i2 pf have "indexed (trace w') = indexed (trace w) @ [?p]
           \<and> prefix [?p] (map (page_path_of dir) (f0 # files))
           \<and> (\<not> isl r \<longrightarrow> [?p] = map (page_path_of dir) (f0 # files))"
        by simp
      then show ?thesis by (rule exI)
    next
      case r1: (Inr u)
      with Cons.prems Inr ic
      have "index_files rt client dir sch files w2 = (r, w')"
        by (auto simp: Let_def page_path_of_def)
      from Cons.IH[OF this] obtain ps where
        ps: "indexed (trace w') = indexed (trace w2) @ ps"
            "prefix ps (map (page_path_of dir) files)"
            "\<not> isl r \<longrightarrow> ps = map (page_path_of dir) files"
        by blast
      with i2 have "indexed (trace w') = indexed (trace w) @ (?p # ps)
           \<and> prefix (?p # ps) (map (page_path_of dir) (f0 # files))
           \<and> (\<not> isl r \<longrightarrow> ?p # ps = map (page_path_of dir) (f0 # files))"
        by simp
      then show ?thesis by (rule exI)
    qed
  qed
qed



lemma onPostBuild_unfold:
  assumes "collectionSchema opts < length heap"
    and "getHTMLFilesRecursively rt (str_or (rootDir opts) (publicDir opts))
           (str_or (rootDir opts) (publicDir opts)) (exclude opts) = Inr files"
    and "generateNewCollectionName opts (heap ! collectionSchema opts) = Inr n"
  shows "onPostBuild rt (Inr client) opts heap s =
     (let base = heap ! collectionSchema opts;
          sent = base\<lparr>name := n\<rparr>;
          dir = str_or (rootDir opts) (publicDir opts);
          w0 = report Info (NewCollectionName n)
                 (report Info StartingOnPostBuild \<lparr>engine = s, trace = []\<rparr>)
      in case retrieve_old_collection client (name base) w0 of
           (old, syns, w1) \<Rightarrow>
             (case create_new_collection client n sent w1 of
                (Inl f, w2) \<Rightarrow> (Inl f, w2, heap @ [sent])
              | (Inr u, w2) \<Rightarrow>
                  (case index_files rt client dir sent files w2 of
                     (Inl f, w3) \<Rightarrow> (Inl f, w3, heap @ [sent])
                   | (Inr u, w3) \<Rightarrow>
                       (Inr (),
                        report Info (ContentIndexed (name base) n)
                          (delete_old_collection client old
                             (upsert_alias client (name base) n
                                (carry_synonyms client n syns w3))),
                        heap @ [sent]))))"
  using assms
  by (simp add: onPostBuild_def Let_def nth_append list_update_append
           split: prod.splits sum.splits)

lemma onPostBuild_no_setup:
  assumes "\<not> (\<exists>files client n.
              getHTMLFilesRecursively rt (str_or (rootDir opts) (publicDir opts))
                (str_or (rootDir opts) (publicDir opts)) (exclude opts) = Inr files
            \<and> new_client = Inr client
            \<and> collectionSchema opts < length heap
            \<and> generateNewCollectionName opts (heap ! collectionSchema opts) = Inr n)"
  shows "\<exists>e. onPostBuild rt new_client opts heap s =
           (Inl (Thrown e), report Info StartingOnPostBuild \<lparr>engine = s, trace = []\<rparr>, heap)"
  using assms
  by (auto simp: onPostBuild_def Let_def split: sum.splits)

lemma onPostBuild_shape:
  assumes b: "collectionSchema opts < length heap"
    and l: "getHTMLFilesRecursively rt (str_or (rootDir opts) (publicDir opts))
           (str_or (rootDir opts) (publicDir opts)) (exclude opts) = Inr files"
    and g: "generateNewCollectionName opts (heap ! collectionSchema opts) = Inr n"
    and run: "onPostBuild rt (Inr client) opts heap s = (out, w, heap')"
  defines "base \<equiv> heap ! collectionSchema opts"
  defines "sent \<equiv> base\<lparr>name := n\<rparr>"
  shows "\<exists>old syns ds.
           heap' = heap @ [sent]
         \<and> requests (trace w) = run_requests (name base) n sent old syns ds (isl out)
         \<and> (create_failed (trace w) \<longrightarrow>
              ds = [] \<and> (\<exists>e. out = Inl (Panicked (CouldNotCreateCollection n e))
                         \<and> last (trace w) = Report Panic (CouldNotCreateCollection n e)))
         \<and> if_truthy old = discovered (fst (aliases_retrieve client (name base) s))
         \<and> ((isl out \<and> indexed (trace w) = [])
            \<or> (\<exists>r w2 w3. index_files rt client (str_or (rootDir opts) (publicDir opts)) sent
                            files w2 = (r, w3)
                  \<and> indexed (trace w2) = [] \<and> indexed (trace w) = indexed (trace w3)
                  \<and> (isl r \<longrightarrow> out = r \<and> w = w3) \<and> (\<not> isl r \<longrightarrow> out = Inr ())))"
proof -
  let ?dir = "str_or (rootDir opts) (publicDir opts)"
  let ?ix = "\<lambda>u. (isl out \<and> indexed (trace w) = [])
            \<or> (\<exists>r w2 w3. index_files rt client ?dir sent files w2 = (r, w3)
                  \<and> indexed (trace w2) = [] \<and> indexed (trace w) = indexed (trace w3)
                  \<and> (isl r \<longrightarrow> out = r \<and> w = w3) \<and> (\<not> isl r \<longrightarrow> out = Inr ()))"
  let ?goal = "\<lambda>old syns ds.
           heap' = heap @ [sent]
         \<and> requests (trace w) = run_requests (name base) n sent old syns ds (isl out)
         \<and> (create_failed (trace w) \<longrightarrow>
              ds = [] \<and> (\<exists>e. out = Inl (Panicked (CouldNotCreateCollection n e))
                         \<and> last (trace w) = Report Panic (CouldNotCreateCollection n e)))
         \<and> if_truthy old = discovered (fst (aliases_retrieve client (name base) s))
         \<and> ?ix ()"
  let ?w0 = "report Info (NewCollectionName n)
               (report Info StartingOnPostBuild \<lparr>engine = s, trace = []\<rparr>)"
  let ?reads = "\<lambda>old. case if_truthy old of None \<Rightarrow> [] | Some c \<Rightarrow> [SynonymsRetrieve c]"
  let ?dels = "\<lambda>old. case if_truthy old of None \<Rightarrow> [] | Some c \<Rightarrow> [CollectionsDelete c]"
  let ?ups = "\<lambda>syns. map (\<lambda>x. SynonymsUpsert n (syn_id x) (syn_synonyms x)) syns"
  note unfold = onPostBuild_unfold[OF b l g, of client s]
  have name_sent: "name sent = n" by (simp add: sent_def)
  obtain old syns w1 where r1: "retrieve_old_collection client (name base) ?w0 = (old, syns, w1)"
    by (cases "retrieve_old_collection client (name base) ?w0")
  obtain c2 w2 where r2: "create_new_collection client n sent w1 = (c2, w2)"
    by (cases "create_new_collection client n sent w1")
  have t0: "requests (trace ?w0) = []" "\<not> create_failed (trace ?w0)" "indexed (trace ?w0) = []"
    by simp_all
  from retrieve_old_collection_discovered[OF r1]
  have d: "if_truthy old = discovered (fst (aliases_retrieve client (name base) s))"
    by simp
  from retrieve_old_collection_indexed[OF r1] create_new_collection_indexed[OF r2] t0(3)
  have x2: "indexed (trace w2) = []" by simp
  note e1 = retrieve_old_collection_emits[OF r1]
  have nc1: "\<not> list_ex is_collections_create (AliasesRetrieve (name base) # ?reads old)"
    by (simp split: option.splits)
  from emits_create_failed[OF e1 nc1] t0 have f1: "\<not> create_failed (trace w1)" by simp
  from emits_requests[OF emits_trans[OF e1 create_new_collection_emits[OF r2]]] t0
  have q2: "requests (trace w2) = AliasesRetrieve (name base) # ?reads old @ [CollectionsCreate sent]"
    by simp
  from create_new_collection_result[OF r2] show ?thesis
  proof
    assume "\<exists>e. c2 = Inl (Panicked (CouldNotCreateCollection n e)) \<and> create_failed (trace w2)
            \<and> last (trace w2) = Report Panic (CouldNotCreateCollection n e)"
    then obtain e where e: "c2 = Inl (Panicked (CouldNotCreateCollection n e))"
      "last (trace w2) = Report Panic (CouldNotCreateCollection n e)" by blast
    from run r1 r2 e(1) have o: "out = Inl (Panicked (CouldNotCreateCollection n e))" "w = w2"
      "heap' = heap @ [sent]"
      by (simp_all add: unfold Let_def base_def sent_def)
    from o x2 have "?ix ()" by simp
    with q2 o e(2) d have "?goal old syns []"
      by (simp add: run_requests_def)
    then show ?thesis by blast
  next
    assume "c2 = Inr () \<and> create_failed (trace w2) = create_failed (trace w1)"
    with f1 have c2: "c2 = Inr ()" and f2: "\<not> create_failed (trace w2)" by simp_all
    obtain c3 w3 where r3: "index_files rt client ?dir sent files w2 = (c3, w3)"
      by (cases "index_files rt client ?dir sent files w2")
    from index_files_emits[OF r3] name_sent obtain ds where
      e3: "emits w2 w3 (map (DocumentsCreate n) ds)" by auto
    have nc3: "\<not> list_ex is_collections_create (map (DocumentsCreate n) ds)"
      by (induction ds) auto
    from emits_create_failed[OF e3 nc3] f2 have f3: "\<not> create_failed (trace w3)" by simp
    from emits_requests[OF e3] q2
    have q3: "requests (trace w3) = AliasesRetrieve (name base) # ?reads old
                @ CollectionsCreate sent # map (DocumentsCreate n) ds"
      by simp
    show ?thesis
    proof (cases c3)
      case (Inl f)
      with run r1 r2 r3 c2 have o: "out = Inl f" "w = w3" "heap' = heap @ [sent]"
        by (simp_all add: unfold Let_def base_def sent_def)
      from r3 x2 o Inl
      have "index_files rt client ?dir sent files w2 = (c3, w3)
                  \<and> indexed (trace w2) = [] \<and> indexed (trace w) = indexed (trace w3)
                  \<and> (isl c3 \<longrightarrow> out = c3 \<and> w = w3) \<and> (\<not> isl c3 \<longrightarrow> out = Inr ())"
        by simp
      then have "?ix ()" by blast
      with q3 f3 o d have "?goal old syns ds"
        by (simp add: run_requests_def)
      then show ?thesis by blast
    next
      case (Inr u)
      let ?w4 = "carry_synonyms client n syns w3"
      let ?w5 = "upsert_alias client (name base) n ?w4"
      let ?w6 = "delete_old_collection client old ?w5"
      from run r1 r2 r3 c2 Inr have o: "out = Inr ()"
        "w = report Info (ContentIndexed (name base) n) ?w6" "heap' = heap @ [sent]"
        by (simp_all add: unfold Let_def base_def sent_def)
      from o(2) have "indexed (trace w) = indexed (trace w3)"
        by (simp add: delete_old_collection_indexed upsert_alias_indexed carry_synonyms_indexed)
      with r3 x2 o(1) Inr
      have "index_files rt client ?dir sent files w2 = (c3, w3)
                  \<and> indexed (trace w2) = [] \<and> indexed (trace w) = indexed (trace w3)
                  \<and> (isl c3 \<longrightarrow> out = c3 \<and> w = w3) \<and> (\<not> isl c3 \<longrightarrow> out = Inr ())"
        by simp
      then have ix: "?ix ()" by blast
      have e6: "emits w3 ?w6 (?ups syns @ [AliasesUpsert (name base) n] @ ?dels old)"
        by (rule emits_trans[OF carry_synonyms_emits
                  emits_trans[OF upsert_alias_emits delete_old_collection_emits]])
      have nc6: "\<not> list_ex is_collections_create
                   (?ups syns @ [AliasesUpsert (name base) n] @ ?dels old)"
        by (induction syns) (auto split: option.splits)
      from emits_create_failed[OF e6 nc6] f3 o(2) have f6: "\<not> create_failed (trace w)"
        by simp
      from emits_requests[OF e6] q3 o(2)
      have "requests (trace w) = AliasesRetrieve (name base) # ?reads old
                @ CollectionsCreate sent # map (DocumentsCreate n) ds
                @ ?ups syns @ AliasesUpsert (name base) n # ?dels old"
        by simp
      with f6 o d ix have "?goal old syns ds"
        by (simp add: run_requests_def)
      then show ?thesis by blast
    qed
  qed
qed

lemma onPostBuild_setup:
  assumes "onPostBuild rt new_client opts heap s = (out, w, heap')"
    and "requests (trace w) \<noteq> []"
  shows "\<exists>files client n.
              getHTMLFilesRecursively rt (str_or (rootDir opts) (publicDir opts))
                (str_or (rootDir opts) (publicDir opts)) (exclude opts) = Inr files
            \<and> new_client = Inr client
            \<and> collectionSchema opts < length heap
            \<and> generateNewCollectionName opts (heap ! collectionSchema opts) = Inr n"
proof (rule ccontr)
  assume "\<not> ?thesis"
  from onPostBuild_no_setup[OF this, of s] assms(1)
  have "w = report Info StartingOnPostBuild \<lparr>engine = s, trace = []\<rparr>" by auto
  with assms(2) show False by simp
qed

lemma split_before_last:
  assumes "pre @ x # post = ys @ [y]" and "x \<notin> set ys"
  shows "pre = ys \<and> x = y \<and> post = []"
proof (cases post rule: rev_cases)
  case Nil
  with assms(1) show ?thesis by simp
next
  case (snoc ps p)
  with assms(1) have "(pre @ x # ps) @ [p] = ys @ [y]" by simp
  then have "ys = pre @ x # ps" by (simp only: append1_eq_conv)
  with assms(2) show ?thesis by simp
qed

lemma not_list_ex_notin: "\<not> list_ex P ys \<Longrightarrow> P x \<Longrightarrow> x \<notin> set ys"
  by (auto simp: list_ex_iff)

lemma no_delete_in_documents [simp]:
  "\<not> list_ex is_collections_delete (map (DocumentsCreate n) ds)"
  by (induction ds) auto

lemma no_delete_in_upserts [simp]:
  "\<not> list_ex is_collections_delete (map (\<lambda>x. SynonymsUpsert n (syn_id x) (syn_synonyms x)) syns)"
  by (induction syns) auto

lemma filter_create_documents [simp]:
  "filter is_collections_create (map (DocumentsCreate n) ds) = []"
  by (induction ds) auto

lemma filter_create_upserts [simp]:
  "filter is_collections_create (map (\<lambda>x. SynonymsUpsert n (syn_id x) (syn_synonyms x)) syns) = []"
  by (induction syns) auto

lemma run_requests_deletes:
  "\<exists>ys. \<not> list_ex is_collections_delete ys
     \<and> (run_requests a n sent old syns ds aborted = ys
         \<or> (\<exists>c. run_requests a n sent old syns ds aborted = (ys @ [AliasesUpsert a n]) @ [CollectionsDelete c]))"
proof (cases "aborted \<or> if_truthy old = None")
  case True
  then have "\<not> list_ex is_collections_delete (run_requests a n sent old syns ds aborted)"
    by (auto simp: run_requests_def split: option.splits)
  then show ?thesis by blast
next
  case False
  then obtain c where c: "if_truthy old = Some c" "\<not> aborted" by auto
  let ?ys = "AliasesRetrieve a # [SynonymsRetrieve c] @ CollectionsCreate sent
               # map (DocumentsCreate n) ds
               @ map (\<lambda>x. SynonymsUpsert n (syn_id x) (syn_synonyms x)) syns"
  have "\<not> list_ex is_collections_delete ?ys" by simp
  moreover from c have "run_requests a n sent old syns ds aborted
      = (?ys @ [AliasesUpsert a n]) @ [CollectionsDelete c]"
    by (simp add: run_requests_def)
  ultimately show ?thesis by blast
qed

lemma request_in_trace: "Request r ok \<in> set es \<Longrightarrow> r \<in> set (requests es)"
  by (induction es rule: requests.induct) auto

lemma alias_upsert_in_run:
  assumes "AliasesUpsert a' n' \<in> set (run_requests a n sent old syns ds aborted)"
  shows "a' = a \<and> n' = n
       \<and> (\<exists>ys. run_requests a n sent old syns ds aborted
                 = ys @ AliasesUpsert a n
                     # (case if_truthy old of None \<Rightarrow> [] | Some c \<Rightarrow> [CollectionsDelete c]))"
proof -
  let ?front = "AliasesRetrieve a
       # (case if_truthy old of None \<Rightarrow> [] | Some c \<Rightarrow> [SynonymsRetrieve c])
       @ CollectionsCreate sent # map (DocumentsCreate n) ds"
  let ?ups = "map (\<lambda>x. SynonymsUpsert n (syn_id x) (syn_synonyms x)) syns"
  let ?dels = "case if_truthy old of None \<Rightarrow> [] | Some c \<Rightarrow> [CollectionsDelete c]"
  have nf: "AliasesUpsert a' n' \<notin> set ?front"
    by (auto split: option.splits)
  have nu: "AliasesUpsert a' n' \<notin> set ?ups"
    by auto
  have nd: "AliasesUpsert a' n' \<notin> set ?dels"
    by (auto split: option.splits)
  show ?thesis
  proof (cases aborted)
    case True
    with assms nf show ?thesis by (simp add: run_requests_def)
  next
    case False
    then have eq: "run_requests a n sent old syns ds aborted
        = (?front @ ?ups) @ AliasesUpsert a n # ?dels"
      by (simp add: run_requests_def)
    with assms nf nu nd have "a' = a \<and> n' = n"
      by (auto split: option.splits)
    with eq show ?thesis by blast
  qed
qed

lemma indexContent_document:
  assumes "each (parseFloat rt) (schema_fields sch) (marked_elements rt contents) [] = Inr doc"
    and "doc \<noteq> []"
  shows "submitted (requests (trace (snd (indexContentInTypesense rt client contents p sch w))))
           = submitted (requests (trace w)) @ [add_page_fields p doc]"
proof -
  obtain r w' where r: "indexContentInTypesense rt client contents p sch w = (r, w')"
    by (cases "indexContentInTypesense rt client contents p sch w")
  from emits_requests[OF indexContent_submits[OF assms r]] r show ?thesis
    by simp
qed

lemma each_completes:
  "(\<exists>doc. each pf fds es [] = Inr doc) = (find (stops_loop fds) es = None)"
  using each_result[OF arrays_are_arrays_Nil, where pf=pf and es=es and fds=fds]
  by (cases "find (stops_loop fds) es") (auto split: if_splits)

section \<open>The concrete runs, evaluated\<close>

lemmas run_defs =
  onPostBuild_def demo_runtime_def sim_runtime_def sim_typesense_def demo_options_def
  demo_schema_def demo_engine_def demo_page_def report_def invoke_def str_or_def if_truthy_def
  retrieve_old_collection_def getExistingSynonyms_def create_new_collection_def
  indexContentInTypesense_def each_callback_def js_or_def typeCastValue_def isObjectEmpty_def
  add_page_fields_def carry_synonyms_def upsert_alias_def delete_old_collection_def
  js_string_of_def remove_index_html_def get_property_def set_property_def
  object_prototype_keys_def Let_def

lemmas page_defs =
  sim_runtime_def sim_typesense_def never_def demo_schema_def demo_engine_def demo_world_def
  report_def invoke_def indexContentInTypesense_def each_callback_def js_or_def
  typeCastValue_def isObjectEmpty_def add_page_fields_def unknown_field_def texts_of_def
  get_property_def set_property_def object_prototype_keys_def Let_def

lemma create_failure_run_eval:
  "create_failure_run =
     (Inl (Panicked (CouldNotCreateCollection ''docs_2'' ''network error'')),
      \<lparr>engine = demo_engine,
       trace =
         [Report Info StartingOnPostBuild,
          Report Info (NewCollectionName ''docs_2''),
          Request (AliasesRetrieve ''docs'') True,
          Report Info (OldCollectionName (Some ''docs_1'')),
          Report Info (RetrievingSynonyms ''docs_1''),
          Request (SynonymsRetrieve ''docs_1'') True,
          Report Info (RetrievedSynonyms 1),
          Report Info (CreatingCollection ''docs_2''),
          Request (CollectionsCreate (demo_schema\<lparr>name := ''docs_2''\<rparr>)) False,
          Report Panic (CouldNotCreateCollection ''docs_2'' ''network error'')]\<rparr>,
      [demo_schema, demo_schema\<lparr>name := ''docs_2''\<rparr>])"
  unfolding create_failure_run_def by (simp add: run_defs)

lemma swap_failure_run_eval:
  "swap_failure_run =
     (Inr (),
      \<lparr>engine =
         \<lparr>sim_collections = [''docs_2''],
          sim_aliases = [(''docs'', ''docs_1'')],
          sim_synonyms =
            [(''docs_2'', \<lparr>syn_id = ''js'', syn_synonyms = [''js'', ''javascript'']\<rparr>)],
          sim_documents =
            [(''docs_2'',
              [(''tags'', JArray [JString ''go'', JString ''rust'']),
               (''page_path'', JString ''/a/''),
               (''page_priority_score'', JNumber (Num 10))])]\<rparr>,
       trace =
         [Report Info StartingOnPostBuild,
          Report Info (NewCollectionName ''docs_2''),
          Request (AliasesRetrieve ''docs'') True,
          Report Info (OldCollectionName (Some ''docs_1'')),
          Report Info (RetrievingSynonyms ''docs_1''),
          Request (SynonymsRetrieve ''docs_1'') True,
          Report Info (RetrievedSynonyms 1),
          Report Info (CreatingCollection ''docs_2''),
          Request (CollectionsCreate (demo_schema\<lparr>name := ''docs_2''\<rparr>)) True,
          Report Verbose (Indexing ''/a/''),
          Report Verbose
            (CreatingDocument
               [(''tags'', JArray [JString ''go'', JString ''rust'']),
                (''page_path'', JString ''/a/''),
                (''page_priority_score'', JNumber (Num 10))]),
          Request
            (DocumentsCreate ''docs_2''
               [(''tags'', JArray [JString ''go'', JString ''rust'']),
                (''page_path'', JString ''/a/''),
                (''page_priority_score'', JNumber (Num 10))])
            True,
          Report Verbose DocumentCreated,
          Report Info (UpsertingSynonyms 1),
          Request (SynonymsUpsert ''docs_2'' ''js'' [''js'', ''javascript'']) True,
          Report Info UpsertedSynonyms,
          Report Info (UpsertingAlias ''docs'' ''docs_2''),
          Request (AliasesUpsert ''docs'' ''docs_2'') False,
          Report Error (CouldNotUpsertAlias ''docs'' ''docs_2'' ''network error''),
          Report Info (DeletingOldCollection ''docs_1''),
          Request (CollectionsDelete ''docs_1'') True,
          Report Info DeletedOldCollection,
          Report Info (ContentIndexed ''docs'' ''docs_2'')]\<rparr>,
      [demo_schema, demo_schema\<lparr>name := ''docs_2''\<rparr>])"
  unfolding swap_failure_run_def by (simp add: run_defs)



lemma parseInt_3: "parseInt ''3'' = Num 3"
  by code_simp

lemma parseInt_5: "parseInt ''5'' = Num 5"
  by code_simp


lemma score_page_eval:
  "each (parseFloat score_runtime) (schema_fields (demo_schema\<lparr>name := ''docs_1''\<rparr>))
     (marked_elements score_runtime score_page) []
     = Inr [(''page_priority_score'', JNumber (Num 5))]
   \<and> submitted (requests (trace (snd (indexContentInTypesense score_runtime
         (sim_typesense never) score_page ''/a/'' (demo_schema\<lparr>name := ''docs_1''\<rparr>)
         demo_world))))
     = [[(''page_priority_score'', JNumber (Num 5)), (''page_path'', JString ''/a/'')]]"
  by (simp add: page_defs score_runtime_def parseInt_3 parseInt_5)

lemma listing_failure_run_eval:
  "listing_failure_run =
     (Inl (Thrown ''ENOENT: no such directory''),
      \<lparr>engine = demo_engine, trace = [Report Info StartingOnPostBuild]\<rparr>,
      [demo_schema])"
  unfolding listing_failure_run_def listing_failure_runtime_def by (simp add: run_defs)

lemma demo_page_eval:
  "each (parseFloat demo_runtime) (schema_fields (demo_schema\<lparr>name := ''docs_1''\<rparr>))
     (marked_elements demo_runtime demo_page) []
     = Inr [(''tags'', JArray [JString ''go'', JString ''rust''])]
   \<and> submitted (requests (trace (snd (indexContentInTypesense demo_runtime
         (sim_typesense never) demo_page ''/a/'' (demo_schema\<lparr>name := ''docs_1''\<rparr>)
         demo_world))))
     = [[(''tags'', JArray [JString ''go'', JString ''rust'']),
         (''page_path'', JString ''/a/''),
         (''page_priority_score'', JNumber (Num 10))]]"
  by (simp add: page_defs demo_runtime_def)

lemma two_paths_page_eval:
  "each (parseFloat two_paths_runtime) (schema_fields (demo_schema\<lparr>name := ''docs_1''\<rparr>))
     (marked_elements two_paths_runtime two_paths_page) []
     = Inr [(''page_path'', JString ''/y/'')]
   \<and> submitted (requests (trace (snd (indexContentInTypesense two_paths_runtime
         (sim_typesense never) two_paths_page ''/a/'' (demo_schema\<lparr>name := ''docs_1''\<rparr>)
         demo_world))))
     = [[(''page_path'', JString ''/a/''), (''page_priority_score'', JNumber (Num 10))]]"
  by (simp add: page_defs two_paths_runtime_def)


section \<open>The order of the alias swap and the deletion\<close>

text \<open>
  C1, as the code has it. In every run, a call that deletes a collection is the last call
  of the run, the call just before it is the upsert of the alias to the new collection,
  and the collection deleted is the one that the lookup of the alias discovered at the
  start of the run: the old collection is never deleted before the swap has been
  attempted, and nothing else is ever deleted. Whether the upsert succeeded does not
  enter: in a run that discovered an old collection and came to the upsert of the alias,
  the deletion of the old collection follows the upsert, whatever the outcome \<open>ok\<close> of
  the upsert. The deletion is guarded by the old collection's name alone (line 197).
\<close>

theorem delete_follows_alias_upsert:
  assumes "onPostBuild rt new_client opts heap s = (out, w, heap')"
  shows "(requests (trace w) = pre @ CollectionsDelete c # post \<longrightarrow>
            post = [] \<and> \<not> list_ex is_collections_delete pre
          \<and> (\<exists>client n ys.
                 new_client = Inr client
               \<and> generateNewCollectionName opts (heap ! collectionSchema opts) = Inr n
               \<and> pre = ys @ [AliasesUpsert (name (heap ! collectionSchema opts)) n]
               \<and> discovered (fst (aliases_retrieve client
                                    (name (heap ! collectionSchema opts)) s)) = Some c))
       \<and> (new_client = Inr cl \<and> Request (AliasesUpsert a m) ok \<in> set (trace w)
            \<and> discovered (fst (aliases_retrieve cl (name (heap ! collectionSchema opts)) s))
                = Some d
          \<longrightarrow> (\<exists>ys. requests (trace w) = ys @ [AliasesUpsert a m, CollectionsDelete d]))"
proof (intro conjI impI)
  let ?base = "heap ! collectionSchema opts"
  assume del: "requests (trace w) = pre @ CollectionsDelete c # post"
  then have "requests (trace w) \<noteq> []" by simp
  from onPostBuild_setup[OF assms this] obtain files client n where
    su: "getHTMLFilesRecursively rt (str_or (rootDir opts) (publicDir opts))
           (str_or (rootDir opts) (publicDir opts)) (exclude opts) = Inr files"
        "new_client = Inr client" "collectionSchema opts < length heap"
        "generateNewCollectionName opts ?base = Inr n"
    by blast
  from onPostBuild_shape[OF su(3,1,4) assms[unfolded su(2)]] obtain old syns ds where
    q: "requests (trace w) = run_requests (name ?base) n (?base\<lparr>name := n\<rparr>) old syns ds (isl out)"
    and o: "if_truthy old = discovered (fst (aliases_retrieve client (name ?base) s))"
    by blast
  have d: "is_collections_delete (CollectionsDelete c)" by simp
  have "post = [] \<and> \<not> list_ex is_collections_delete pre
      \<and> pre = (AliasesRetrieve (name ?base) # [SynonymsRetrieve c]
                 @ CollectionsCreate (?base\<lparr>name := n\<rparr>) # map (DocumentsCreate n) ds
                 @ map (\<lambda>x. SynonymsUpsert n (syn_id x) (syn_synonyms x)) syns)
               @ [AliasesUpsert (name ?base) n]
      \<and> if_truthy old = Some c"
  proof (cases "isl out \<or> if_truthy old = None")
    case True
    then have "\<not> list_ex is_collections_delete
                 (run_requests (name ?base) n (?base\<lparr>name := n\<rparr>) old syns ds (isl out))"
      by (auto simp: run_requests_def split: option.splits)
    from not_list_ex_notin[OF this d]
    have "CollectionsDelete c \<notin> set (requests (trace w))" by (simp add: q)
    moreover from del have "CollectionsDelete c \<in> set (requests (trace w))" by simp
    ultimately show ?thesis by contradiction
  next
    case False
    then obtain c' where c': "if_truthy old = Some c'" "\<not> isl out" by auto
    let ?ys = "AliasesRetrieve (name ?base) # [SynonymsRetrieve c']
                 @ CollectionsCreate (?base\<lparr>name := n\<rparr>) # map (DocumentsCreate n) ds
                 @ map (\<lambda>x. SynonymsUpsert n (syn_id x) (syn_synonyms x)) syns"
    have nd: "\<not> list_ex is_collections_delete (?ys @ [AliasesUpsert (name ?base) n])" by simp
    from c' q del
    have eq: "pre @ CollectionsDelete c # post
                = (?ys @ [AliasesUpsert (name ?base) n]) @ [CollectionsDelete c']"
      by (simp add: run_requests_def)
    from split_before_last[OF eq not_list_ex_notin[OF nd d]] nd c' show ?thesis
      by simp
  qed
  with o su(2,4)
  show "post = []" "\<not> list_ex is_collections_delete pre"
    "\<exists>client n ys.
                 new_client = Inr client
               \<and> generateNewCollectionName opts ?base = Inr n
               \<and> pre = ys @ [AliasesUpsert (name ?base) n]
               \<and> discovered (fst (aliases_retrieve client (name ?base) s)) = Some c"
    by auto
next
  let ?base = "heap ! collectionSchema opts"
  assume h: "new_client = Inr cl \<and> Request (AliasesUpsert a m) ok \<in> set (trace w)
            \<and> discovered (fst (aliases_retrieve cl (name ?base) s)) = Some d"
  then have inr: "AliasesUpsert a m \<in> set (requests (trace w))"
    by (auto dest: request_in_trace)
  then have "requests (trace w) \<noteq> []" by auto
  from onPostBuild_setup[OF assms this] h obtain files n where
    su: "getHTMLFilesRecursively rt (str_or (rootDir opts) (publicDir opts))
           (str_or (rootDir opts) (publicDir opts)) (exclude opts) = Inr files"
        "new_client = Inr cl" "collectionSchema opts < length heap"
        "generateNewCollectionName opts ?base = Inr n"
    by auto
  from onPostBuild_shape[OF su(3,1,4) assms[unfolded su(2)]] obtain old syns ds where
    q: "requests (trace w) = run_requests (name ?base) n (?base\<lparr>name := n\<rparr>) old syns ds (isl out)"
    and o: "if_truthy old = discovered (fst (aliases_retrieve cl (name ?base) s))"
    by blast
  from alias_upsert_in_run[OF inr[unfolded q]] q o h
  obtain ys where "requests (trace w) = ys @ AliasesUpsert a m # [CollectionsDelete d]"
    by auto
  then show "\<exists>ys. requests (trace w) = ys @ [AliasesUpsert a m, CollectionsDelete d]"
    by blast
qed

text \<open>On the concrete site, with the upsert of the alias failing: the old collection
  \<open>docs_1\<close> was discovered, the upsert failed, and \<open>docs_1\<close> was deleted all the same; at
  the end the alias still names \<open>docs_1\<close>, which is gone.\<close>

theorem old_collection_deleted_after_failed_swap:
  "Report Info (OldCollectionName (Some ''docs_1'')) \<in> set (trace (fst (snd swap_failure_run)))
   \<and> Request (AliasesUpsert ''docs'' ''docs_2'') False \<in> set (trace (fst (snd swap_failure_run)))
   \<and> Request (CollectionsDelete ''docs_1'') True \<in> set (trace (fst (snd swap_failure_run)))
   \<and> map_of (sim_aliases (engine (fst (snd swap_failure_run)))) ''docs'' = Some ''docs_1''
   \<and> ''docs_1'' \<notin> set (sim_collections (engine (fst (snd swap_failure_run))))"
  by (simp add: swap_failure_run_eval)

text \<open>The hypotheses of the theorem are met on the concrete site.\<close>

theorem delete_follows_alias_upsert_witness:
  "requests (trace (fst (snd swap_failure_run)))
       = [AliasesRetrieve ''docs'', SynonymsRetrieve ''docs_1'',
          CollectionsCreate (demo_schema\<lparr>name := ''docs_2''\<rparr>),
          DocumentsCreate ''docs_2''
            [(''tags'', JArray [JString ''go'', JString ''rust'']),
             (''page_path'', JString ''/a/''),
             (''page_priority_score'', JNumber (Num 10))],
          SynonymsUpsert ''docs_2'' ''js'' [''js'', ''javascript''],
          AliasesUpsert ''docs'' ''docs_2'']
         @ CollectionsDelete ''docs_1'' # []
   \<and> Request (AliasesUpsert ''docs'' ''docs_2'') False \<in> set (trace (fst (snd swap_failure_run)))
   \<and> discovered (fst (aliases_retrieve (sim_typesense is_aliases_upsert)
                         (name ([demo_schema] ! collectionSchema demo_options)) demo_engine))
       = Some ''docs_1''
   \<and> generateNewCollectionName demo_options ([demo_schema] ! collectionSchema demo_options)
       = Inr ''docs_2''
   \<and> (\<exists>ys. requests (trace (fst (snd swap_failure_run)))
              = ys @ [AliasesUpsert ''docs'' ''docs_2'', CollectionsDelete ''docs_1''])"
proof -
  have r: "onPostBuild demo_runtime (Inr (sim_typesense is_aliases_upsert)) demo_options
             [demo_schema] demo_engine
           = (fst swap_failure_run, fst (snd swap_failure_run), snd (snd swap_failure_run))"
    by (simp add: swap_failure_run_def)
  have q: "requests (trace (fst (snd swap_failure_run)))
       = [AliasesRetrieve ''docs'', SynonymsRetrieve ''docs_1'',
          CollectionsCreate (demo_schema\<lparr>name := ''docs_2''\<rparr>),
          DocumentsCreate ''docs_2''
            [(''tags'', JArray [JString ''go'', JString ''rust'']),
             (''page_path'', JString ''/a/''),
             (''page_priority_score'', JNumber (Num 10))],
          SynonymsUpsert ''docs_2'' ''js'' [''js'', ''javascript''],
          AliasesUpsert ''docs'' ''docs_2'']
         @ CollectionsDelete ''docs_1'' # []"
    by (simp add: swap_failure_run_eval)
  have u: "Request (AliasesUpsert ''docs'' ''docs_2'') False
             \<in> set (trace (fst (snd swap_failure_run)))"
    by (simp add: swap_failure_run_eval)
  have d: "discovered (fst (aliases_retrieve (sim_typesense is_aliases_upsert)
                         (name ([demo_schema] ! collectionSchema demo_options)) demo_engine))
       = Some ''docs_1''"
    by (simp add: discovered_def if_truthy_def sim_typesense_def demo_engine_def
          demo_options_def demo_schema_def)
  have g: "generateNewCollectionName demo_options ([demo_schema] ! collectionSchema demo_options)
       = Inr ''docs_2''"
    by (simp add: demo_options_def demo_schema_def)
  from delete_follows_alias_upsert[OF r, where cl="sim_typesense is_aliases_upsert"
      and a="''docs''" and m="''docs_2''" and ok=False and d="''docs_1''"
      and c="''docs_1''" and post="[]"
      and pre="[AliasesRetrieve ''docs'', SynonymsRetrieve ''docs_1'',
          CollectionsCreate (demo_schema\<lparr>name := ''docs_2''\<rparr>),
          DocumentsCreate ''docs_2''
            [(''tags'', JArray [JString ''go'', JString ''rust'']),
             (''page_path'', JString ''/a/''),
             (''page_priority_score'', JNumber (Num 10))],
          SynonymsUpsert ''docs_2'' ''js'' [''js'', ''javascript''],
          AliasesUpsert ''docs'' ''docs_2'']"]
    q u d g
  show ?thesis
    by simp
qed

section \<open>The submitted document\<close>




text \<open>
  C6, as the code has it. For a field of an array type other than \<open>page_path\<close>, on a
  page on which the loop over the marked elements comes to its end and where at least
  one element names this field, one document is submitted, and it has for the field the
  list of the coerced texts of all the elements naming it, in document order: as many
  values as there are such elements. (The loop does not come to its end on a page with
  an element that names no field of the schema, or that names a field of an array type
  whose name every object inherits, such as \<open>toString\<close>.)
\<close>

theorem array_field_collects_all_values:
  assumes "each (parseFloat rt) (schema_fields sch) (marked_elements rt contents) [] = Inr doc"
    and "find (\<lambda>g. field_name g = f) (schema_fields sch) = Some fd"
    and "str_includes (field_type fd) ''[]''"
    and "texts_of f (marked_elements rt contents) \<noteq> []"
    and "f \<noteq> ''page_path''"
  shows "\<exists>d xs. submitted (requests (trace (snd (indexContentInTypesense rt client contents p sch w))))
               = submitted (requests (trace w)) @ [d]
           \<and> map_of d f = Some (JArray xs)
           \<and> xs = map (typeCastValue (parseFloat rt) fd) (texts_of f (marked_elements rt contents))
           \<and> length xs = length (filter (\<lambda>e. fst e = f) (marked_elements rt contents))"
proof -
  let ?es = "marked_elements rt contents"
  let ?xs = "map (typeCastValue (parseFloat rt) fd) (texts_of f ?es)"
  from assms(4) have ne: "f \<in> fst ` set ?es"
    by (auto simp: texts_of_def filter_empty_conv)
  from each_array_gen[OF assms(1,2,3)] ne
  have m: "map_of doc f = Some (JArray ?xs)"
    by (simp add: arr_of_def)
  then have dn: "doc \<noteq> []" by auto
  from m assms(5) have "map_of (add_page_fields p doc) f = Some (JArray ?xs)"
    by (auto simp: map_of_add_page_fields js_or_def)
  moreover have "length ?xs = length (filter (\<lambda>e. fst e = f) ?es)"
    by (simp add: texts_of_def)
  ultimately show ?thesis
    using indexContent_document[OF assms(1) dn, of client p w] by blast
qed

text \<open>With \<open>page_path\<close> declared as a list of strings and marked in the page, the
  submitted document has the site path for it, not the list.\<close>

theorem marked_page_path_list_overwritten:
  "schema_fields path_list_schema = [\<lparr>field_name = ''page_path'', field_type = ''string[]''\<rparr>]
   \<and> str_includes ''string[]'' ''[]''
   \<and> marked_elements path_runtime path_page = [(''page_path'', ''/x/'')]
   \<and> submitted (requests (trace (snd (indexContentInTypesense path_runtime
         (sim_typesense never) path_page ''/a/'' path_list_schema demo_world))))
     = [[(''page_path'', JString ''/a/''), (''page_priority_score'', JNumber (Num 10))]]
   \<and> JString ''/a/'' \<noteq> JArray [JString ''/x/'']"
  by (simp add: page_defs path_runtime_def path_list_schema_def)

text \<open>The hypotheses of the theorem are met on the concrete site.\<close>

theorem array_field_collects_all_values_witness:
  "each (parseFloat demo_runtime) (schema_fields (demo_schema\<lparr>name := ''docs_1''\<rparr>))
     (marked_elements demo_runtime demo_page) []
     = Inr [(''tags'', JArray [JString ''go'', JString ''rust''])]
   \<and> find (\<lambda>g. field_name g = ''tags'') (schema_fields (demo_schema\<lparr>name := ''docs_1''\<rparr>))
       = Some \<lparr>field_name = ''tags'', field_type = ''string[]''\<rparr>
   \<and> str_includes ''string[]'' ''[]''
   \<and> texts_of ''tags'' (marked_elements demo_runtime demo_page) = [''go'', ''rust'']
   \<and> (\<exists>d. submitted (requests (trace (snd (indexContentInTypesense demo_runtime
               (sim_typesense never) demo_page ''/a/'' (demo_schema\<lparr>name := ''docs_1''\<rparr>)
               demo_world))))
            = [d]
          \<and> map_of d ''tags'' = Some (JArray [JString ''go'', JString ''rust'']))"
proof -
  have e: "each (parseFloat demo_runtime) (schema_fields (demo_schema\<lparr>name := ''docs_1''\<rparr>))
     (marked_elements demo_runtime demo_page) []
     = Inr [(''tags'', JArray [JString ''go'', JString ''rust''])]"
    using demo_page_eval by simp
  have f: "find (\<lambda>g. field_name g = ''tags'') (schema_fields (demo_schema\<lparr>name := ''docs_1''\<rparr>))
             = Some \<lparr>field_name = ''tags'', field_type = ''string[]''\<rparr>"
    by (simp add: demo_schema_def)
  have i: "str_includes (field_type \<lparr>field_name = ''tags'', field_type = ''string[]''\<rparr>) ''[]''"
    by simp
  have t: "texts_of ''tags'' (marked_elements demo_runtime demo_page) = [''go'', ''rust'']"
    by (simp add: page_defs demo_runtime_def)
  then have n: "texts_of ''tags'' (marked_elements demo_runtime demo_page) \<noteq> []"
    by simp
  have p: "''tags'' \<noteq> ''page_path''" by simp
  from array_field_collects_all_values[OF e f i n p, where client="sim_typesense never"
      and p="''/a/''" and w=demo_world] e f i t
  show ?thesis
    by (auto simp: typeCastValue_def demo_world_def)
qed

text \<open>
  C9, as the code has it. For a field of a scalar type other than \<open>page_path\<close> and
  \<open>__proto__\<close>, on a page on which the loop over the marked elements comes to its end
  and where several elements name this field, one document is submitted, and it has for
  the field the coerced text of the last element naming it; for \<open>page_priority_score\<close>
  this is so when that value is truthy.
\<close>

theorem scalar_field_keeps_last_value:
  assumes "each (parseFloat rt) (schema_fields sch) (marked_elements rt contents) [] = Inr doc"
    and "find (\<lambda>g. field_name g = f) (schema_fields sch) = Some fd"
    and "\<not> str_includes (field_type fd) ''[]''"
    and "1 < length (texts_of f (marked_elements rt contents))"
    and "f \<noteq> ''page_path''"
    and "f \<noteq> ''__proto__''"
    and "f = ''page_priority_score'' \<longrightarrow>
           truthy (typeCastValue (parseFloat rt) fd (last (texts_of f (marked_elements rt contents))))"
  shows "\<exists>d. submitted (requests (trace (snd (indexContentInTypesense rt client contents p sch w))))
               = submitted (requests (trace w)) @ [d]
           \<and> map_of d f = Some (typeCastValue (parseFloat rt) fd
                                 (last (texts_of f (marked_elements rt contents))))"
proof -
  let ?es = "marked_elements rt contents"
  let ?v = "typeCastValue (parseFloat rt) fd (last (texts_of f ?es))"
  from assms(4) have tn: "texts_of f ?es \<noteq> []" by auto
  then obtain v vs where rv: "rev (texts_of f ?es) = v # vs"
    by (cases "rev (texts_of f ?es)") auto
  then have "last (texts_of f ?es) = v"
    by (metis list.sel(1) hd_rev)
  with each_scalar_gen[OF assms(1,2,3,6)] rv have m: "map_of doc f = Some ?v"
    by simp
  then have dn: "doc \<noteq> []" by auto
  from m assms(5,7) have "map_of (add_page_fields p doc) f = Some ?v"
    by (auto simp: map_of_add_page_fields js_or_def)
  with indexContent_document[OF assms(1) dn, of client p w] show ?thesis by blast
qed

text \<open>With \<open>page_path\<close> declared as a string and marked twice in the page, the loop
  leaves the text of the second element, and the submitted document has the site path,
  not that text.\<close>

theorem marked_page_path_overwritten:
  "find (\<lambda>g. field_name g = ''page_path'') (schema_fields (demo_schema\<lparr>name := ''docs_1''\<rparr>))
     = Some \<lparr>field_name = ''page_path'', field_type = ''string''\<rparr>
   \<and> \<not> str_includes ''string'' ''[]''
   \<and> marked_elements two_paths_runtime two_paths_page
       = [(''page_path'', ''/x/''), (''page_path'', ''/y/'')]
   \<and> each (parseFloat two_paths_runtime) (schema_fields (demo_schema\<lparr>name := ''docs_1''\<rparr>))
       (marked_elements two_paths_runtime two_paths_page) []
     = Inr [(''page_path'', JString ''/y/'')]
   \<and> submitted (requests (trace (snd (indexContentInTypesense two_paths_runtime
         (sim_typesense never) two_paths_page ''/a/'' (demo_schema\<lparr>name := ''docs_1''\<rparr>)
         demo_world))))
     = [[(''page_path'', JString ''/a/''), (''page_priority_score'', JNumber (Num 10))]]
   \<and> JString ''/a/'' \<noteq> typeCastValue (parseFloat two_paths_runtime)
                          \<lparr>field_name = ''page_path'', field_type = ''string''\<rparr> ''/y/''"
  using two_paths_page_eval
  by (simp add: two_paths_runtime_def sim_runtime_def demo_schema_def typeCastValue_def)

text \<open>The hypotheses of the theorem are met on the concrete site.\<close>

theorem scalar_field_keeps_last_value_witness:
  "each (parseFloat score_runtime) (schema_fields (demo_schema\<lparr>name := ''docs_1''\<rparr>))
       (marked_elements score_runtime score_page) []
     = Inr [(''page_priority_score'', JNumber (Num 5))]
   \<and> texts_of ''page_priority_score'' (marked_elements score_runtime score_page) = [''3'', ''5'']
   \<and> 1 < length (texts_of ''page_priority_score'' (marked_elements score_runtime score_page))
   \<and> truthy (typeCastValue (parseFloat score_runtime)
                \<lparr>field_name = ''page_priority_score'', field_type = ''int32''\<rparr> ''5'')
   \<and> (\<exists>d. submitted (requests (trace (snd (indexContentInTypesense score_runtime
               (sim_typesense never) score_page ''/a/'' (demo_schema\<lparr>name := ''docs_1''\<rparr>)
               demo_world))))
            = [d]
          \<and> map_of d ''page_priority_score'' = Some (JNumber (Num 5)))"
proof -
  let ?fd = "\<lparr>field_name = ''page_priority_score'', field_type = ''int32''\<rparr>"
  have e: "each (parseFloat score_runtime) (schema_fields (demo_schema\<lparr>name := ''docs_1''\<rparr>))
       (marked_elements score_runtime score_page) []
     = Inr [(''page_priority_score'', JNumber (Num 5))]"
    using score_page_eval by simp
  have f: "find (\<lambda>g. field_name g = ''page_priority_score'')
             (schema_fields (demo_schema\<lparr>name := ''docs_1''\<rparr>)) = Some ?fd"
    by (simp add: demo_schema_def)
  have i: "\<not> str_includes (field_type ?fd) ''[]''"
    by simp
  have t: "texts_of ''page_priority_score'' (marked_elements score_runtime score_page)
             = [''3'', ''5'']"
    by (simp add: page_defs score_runtime_def)
  then have n: "1 < length (texts_of ''page_priority_score''
                             (marked_elements score_runtime score_page))"
    by simp
  have p: "''page_priority_score'' \<noteq> ''page_path''" by simp
  have pr: "''page_priority_score'' \<noteq> ''__proto__''" by simp
  have c: "typeCastValue (parseFloat score_runtime) ?fd ''5'' = JNumber (Num 5)"
    by (simp add: typeCastValue_def parseInt_5)
  with t have s: "''page_priority_score'' = ''page_priority_score'' \<longrightarrow>
           truthy (typeCastValue (parseFloat score_runtime) ?fd
                     (last (texts_of ''page_priority_score''
                              (marked_elements score_runtime score_page))))"
    by simp
  from scalar_field_keeps_last_value[OF e f i n p pr s, where client="sim_typesense never"
      and p="''/a/''" and w=demo_world] e t n c
  show ?thesis
    by (simp add: demo_world_def)
qed

section \<open>Failure to create the new collection\<close>

text \<open>
  C3. When the call that creates the new collection fails, the run ends there with a
  panic: apart from the reads of the alias and of the old synonyms, the failed creation
  is the only call of the run. No document is submitted, the alias is not upserted and
  no collection is deleted.
\<close>

theorem create_failure_aborts:
  assumes "onPostBuild rt new_client opts heap s = (out, w, heap')"
    and "create_failed (trace w)"
  shows "\<exists>n. generateNewCollectionName opts (heap ! collectionSchema opts) = Inr n
       \<and> (\<exists>e. out = Inl (Panicked (CouldNotCreateCollection n e)))
       \<and> filter (\<lambda>r. \<not> is_read r) (requests (trace w))
           = [CollectionsCreate ((heap ! collectionSchema opts)\<lparr>name := n\<rparr>)]
       \<and> \<not> list_ex is_documents_create (requests (trace w))
       \<and> \<not> list_ex is_synonyms_upsert (requests (trace w))
       \<and> \<not> list_ex is_aliases_upsert (requests (trace w))
       \<and> \<not> list_ex is_collections_delete (requests (trace w))"
proof -
  let ?base = "heap ! collectionSchema opts"
  from create_failed_requests[OF assms(2)] have "requests (trace w) \<noteq> []"
    by auto
  from onPostBuild_setup[OF assms(1) this] obtain files client n where
    su: "getHTMLFilesRecursively rt (str_or (rootDir opts) (publicDir opts))
           (str_or (rootDir opts) (publicDir opts)) (exclude opts) = Inr files"
        "new_client = Inr client" "collectionSchema opts < length heap"
        "generateNewCollectionName opts ?base = Inr n"
    by blast
  from onPostBuild_shape[OF su(3,1,4) assms(1)[unfolded su(2)]] assms(2) obtain old syns e where
    q: "requests (trace w) = run_requests (name ?base) n (?base\<lparr>name := n\<rparr>) old syns [] (isl out)"
    and e: "out = Inl (Panicked (CouldNotCreateCollection n e))"
    by blast
  from q e have "filter (\<lambda>r. \<not> is_read r) (requests (trace w))
           = [CollectionsCreate (?base\<lparr>name := n\<rparr>)]
       \<and> \<not> list_ex is_documents_create (requests (trace w))
       \<and> \<not> list_ex is_synonyms_upsert (requests (trace w))
       \<and> \<not> list_ex is_aliases_upsert (requests (trace w))
       \<and> \<not> list_ex is_collections_delete (requests (trace w))"
    by (simp add: run_requests_def split: option.splits)
  with su(4) e show ?thesis by blast
qed

text \<open>The hypotheses of the theorem are met on the concrete site.\<close>

theorem create_failure_aborts_witness:
  "create_failed (trace (fst (snd create_failure_run)))
   \<and> generateNewCollectionName demo_options ([demo_schema] ! collectionSchema demo_options)
       = Inr ''docs_2''
   \<and> fst create_failure_run = Inl (Panicked (CouldNotCreateCollection ''docs_2'' ''network error''))
   \<and> requests (trace (fst (snd create_failure_run)))
       = [AliasesRetrieve ''docs'', SynonymsRetrieve ''docs_1'',
          CollectionsCreate (demo_schema\<lparr>name := ''docs_2''\<rparr>)]
   \<and> filter (\<lambda>r. \<not> is_read r) (requests (trace (fst (snd create_failure_run))))
       = [CollectionsCreate (([demo_schema] ! collectionSchema demo_options)\<lparr>name := ''docs_2''\<rparr>)]
   \<and> engine (fst (snd create_failure_run)) = demo_engine"
proof -
  have r: "onPostBuild demo_runtime (Inr (sim_typesense is_collections_create)) demo_options
             [demo_schema] demo_engine
           = (fst create_failure_run, fst (snd create_failure_run), snd (snd create_failure_run))"
    by (simp add: create_failure_run_def)
  have f: "create_failed (trace (fst (snd create_failure_run)))"
    by (simp add: create_failure_run_eval)
  have g: "generateNewCollectionName demo_options ([demo_schema] ! collectionSchema demo_options)
       = Inr ''docs_2''"
    by (simp add: demo_options_def demo_schema_def)
  from create_failure_aborts[OF r f] f g show ?thesis
    by (simp add: create_failure_run_eval)
qed

section \<open>Pages that cannot be indexed\<close>




text \<open>
  C7. A page without any marked element is skipped: a warning is reported, no call is
  made to the engine, so no document is submitted, and the result is not a failure; the
  loop over the files goes on with the next file.
\<close>

theorem page_without_markers_is_skipped:
  assumes "marked_elements rt contents = []"
  shows "indexContentInTypesense rt client contents p sch w
           = (Inr (), report Warn NoElementsSkippingPage w)
       \<and> requests (trace (report Warn NoElementsSkippingPage w)) = requests (trace w)
       \<and> (readFile rt f = Inr contents \<longrightarrow>
            index_files rt client dir sch (f # files) w
              = index_files rt client dir sch files
                  (report Warn NoElementsSkippingPage
                     (report Verbose
                        (Indexing (remove_index_html (replace_first (js_string_of dir) f))) w)))"
  using assms by (simp add: indexContentInTypesense_def isObjectEmpty_def Let_def)

text \<open>The hypotheses of the theorem are met on the concrete site.\<close>

theorem page_without_markers_is_skipped_witness:
  "marked_elements plain_runtime plain_page = []
   \<and> readFile plain_runtime ''public/a/index.html'' = Inr plain_page
   \<and> indexContentInTypesense plain_runtime (sim_typesense never) plain_page ''/a/''
         demo_schema demo_world
       = (Inr (), \<lparr>engine = demo_engine, trace = [Report Warn NoElementsSkippingPage]\<rparr>)
   \<and> index_files plain_runtime (sim_typesense never) (Some ''public'') demo_schema
         [''public/a/index.html''] demo_world
       = (Inr (), \<lparr>engine = demo_engine,
                   trace = [Report Verbose (Indexing ''/a/''),
                            Report Warn NoElementsSkippingPage]\<rparr>)"
proof -
  have m: "marked_elements plain_runtime plain_page = []"
    by (simp add: plain_runtime_def sim_runtime_def)
  have r: "readFile plain_runtime ''public/a/index.html'' = Inr plain_page"
    by (simp add: plain_runtime_def sim_runtime_def)
  have p: "remove_index_html (replace_first (js_string_of (Some ''public'')) ''public/a/index.html'')
             = ''/a/''"
    by (simp add: remove_index_html_def js_string_of_def)
  from page_without_markers_is_skipped[OF m, where client="sim_typesense never" and p="''/a/''"
      and sch=demo_schema and w=demo_world and f="''public/a/index.html''" and files="[]"
      and dir="Some ''public''"] m r p
  show ?thesis
    by (simp add: report_def demo_world_def)
qed

section \<open>Coercion of boolean fields\<close>

text \<open>
  C5. For a field whose declared type is boolean (\<open>bool\<close>, or \<open>bool[]\<close> for a list of
  booleans) and any raw text, \<open>typeCastValue\<close> gives \<open>false\<close> when the text equals
  \<open>false\<close> without regard to case, or is the literal \<open>0\<close>, or is empty once trimmed; it
  gives \<open>true\<close> for every other text.
\<close>

theorem typeCastValue_boolean:
  assumes "field_type fd = ''bool'' \<or> field_type fd = ''bool[]''"
  shows "typeCastValue pf fd v =
           JBool (\<not> (toLowerCase v = ''false'' \<or> v = ''0'' \<or> trim v = ''''))"
  using assms by (auto simp: typeCastValue_def)

text \<open>The hypotheses of the theorem are met on the concrete site.\<close>

theorem typeCastValue_boolean_witness:
  "field_type \<lparr>field_name = ''draft'', field_type = ''bool''\<rparr> = ''bool''
   \<and> typeCastValue (\<lambda>v. NaN) \<lparr>field_name = ''draft'', field_type = ''bool''\<rparr> ''False''
       = JBool False
   \<and> typeCastValue (\<lambda>v. NaN) \<lparr>field_name = ''draft'', field_type = ''bool''\<rparr> ''0''
       = JBool False
   \<and> typeCastValue (\<lambda>v. NaN) \<lparr>field_name = ''draft'', field_type = ''bool''\<rparr> ''  ''
       = JBool False
   \<and> typeCastValue (\<lambda>v. NaN) \<lparr>field_name = ''draft'', field_type = ''bool''\<rparr> ''no''
       = JBool True"
proof -
  let ?fd = "\<lparr>field_name = ''draft'', field_type = ''bool''\<rparr>"
  have h: "field_type ?fd = ''bool'' \<or> field_type ?fd = ''bool[]''"
    by simp
  have l: "toLowerCase ''False'' = ''false''" "toLowerCase ''0'' \<noteq> ''false''"
    "toLowerCase ''  '' \<noteq> ''false''" "toLowerCase ''no'' \<noteq> ''false''"
    by (simp_all add: toLowerCase_def lower_char_def)
  have t: "trim ''  '' = []" "trim ''no'' = ''no''"
    by code_simp+
  from typeCastValue_boolean[OF h, of "\<lambda>v. NaN" "''False''"]
       typeCastValue_boolean[OF h, of "\<lambda>v. NaN" "''0''"]
       typeCastValue_boolean[OF h, of "\<lambda>v. NaN" "''  ''"]
       typeCastValue_boolean[OF h, of "\<lambda>v. NaN" "''no''"] l t
  show ?thesis by simp
qed

section \<open>Carrying the synonyms over\<close>

text \<open>
  C8. When the retrieval of the synonyms of a collection fails, as it does for a
  collection that does not exist, \<open>getExistingSynonyms\<close> warns and returns the empty
  list. \<open>upsertSynonyms\<close> makes one upsert call for each rule, in order, whatever the
  outcome of the calls; after a failed call it warns and goes on with the remaining
  rules.
\<close>

theorem synonym_carryover_is_best_effort:
  shows "(synonyms_retrieve client c (engine w) = (Inl e, s') \<longrightarrow>
            getExistingSynonyms client c w
              = ([], report ConsoleWarn (FailedToRetrieveSynonyms c e)
                       (w\<lparr>engine := s', trace := trace w @ [Request (SynonymsRetrieve c) False]\<rparr>)))
       \<and> requests (trace (upsertSynonyms client n syns w))
           = requests (trace w) @ map (\<lambda>x. SynonymsUpsert n (syn_id x) (syn_synonyms x)) syns
       \<and> (synonyms_upsert client n (syn_id x) (syn_synonyms x) (engine w) = (Inl err, st) \<longrightarrow>
            upsertSynonyms client n (x # rest) w
              = upsertSynonyms client n rest
                  (report ConsoleWarn (FailedToUpsertSynonym (syn_id x) err)
                     (w\<lparr>engine := st,
                        trace := trace w
                          @ [Request (SynonymsUpsert n (syn_id x) (syn_synonyms x)) False]\<rparr>)))"
  using emits_requests[OF upsertSynonyms_emits[where w=w and client=client and c=n and syns=syns]]
  by (simp add: getExistingSynonyms_def invoke_def)

text \<open>The hypotheses of the theorem are met on the concrete site.\<close>

theorem synonym_carryover_is_best_effort_witness:
  "synonyms_retrieve (sim_typesense js_rule_down) ''docs_0'' (engine demo_world)
     = (Inl ''Not Found'', demo_engine)
   \<and> fst (getExistingSynonyms (sim_typesense js_rule_down) ''docs_0'' demo_world) = []
   \<and> synonyms_upsert (sim_typesense js_rule_down) ''docs_1'' ''js'' [''js'', ''javascript'']
        (engine demo_world)
     = (Inl ''network error'', demo_engine)
   \<and> trace (upsertSynonyms (sim_typesense js_rule_down) ''docs_1''
               [\<lparr>syn_id = ''js'', syn_synonyms = [''js'', ''javascript'']\<rparr>,
                \<lparr>syn_id = ''py'', syn_synonyms = [''py'', ''python'']\<rparr>] demo_world)
     = [Request (SynonymsUpsert ''docs_1'' ''js'' [''js'', ''javascript'']) False,
        Report ConsoleWarn (FailedToUpsertSynonym ''js'' ''network error''),
        Request (SynonymsUpsert ''docs_1'' ''py'' [''py'', ''python'']) True]"
proof -
  have a: "synonyms_retrieve (sim_typesense js_rule_down) ''docs_0'' (engine demo_world)
             = (Inl ''Not Found'', demo_engine)"
    by (simp add: sim_typesense_def demo_world_def demo_engine_def)
  have c: "synonyms_upsert (sim_typesense js_rule_down) ''docs_1''
             (syn_id \<lparr>syn_id = ''js'', syn_synonyms = [''js'', ''javascript'']\<rparr>)
             (syn_synonyms \<lparr>syn_id = ''js'', syn_synonyms = [''js'', ''javascript'']\<rparr>)
             (engine demo_world)
           = (Inl ''network error'', demo_engine)"
    by (simp add: sim_typesense_def demo_world_def)
  have t: "trace (upsertSynonyms (sim_typesense js_rule_down) ''docs_1''
               [\<lparr>syn_id = ''py'', syn_synonyms = [''py'', ''python'']\<rparr>]
               (report ConsoleWarn (FailedToUpsertSynonym ''js'' ''network error'')
                  (demo_world\<lparr>engine := demo_engine,
                     trace := trace demo_world
                       @ [Request (SynonymsUpsert ''docs_1'' ''js'' [''js'', ''javascript''])
                            False]\<rparr>)))
     = [Request (SynonymsUpsert ''docs_1'' ''js'' [''js'', ''javascript'']) False,
        Report ConsoleWarn (FailedToUpsertSynonym ''js'' ''network error''),
        Request (SynonymsUpsert ''docs_1'' ''py'' [''py'', ''python'']) True]"
    by (simp add: sim_typesense_def demo_world_def demo_engine_def invoke_def report_def)
  from synonym_carryover_is_best_effort
         [where client="sim_typesense js_rule_down" and c="''docs_0''" and w=demo_world
            and e="''Not Found''" and s'=demo_engine and n="''docs_1''"
            and x="\<lparr>syn_id = ''js'', syn_synonyms = [''js'', ''javascript'']\<rparr>"
            and rest="[\<lparr>syn_id = ''py'', syn_synonyms = [''py'', ''python'']\<rparr>]"
            and err="''network error''" and st=demo_engine]
    a c t
  show ?thesis
    by simp
qed

section \<open>The schema of the new collection\<close>

text \<open>
  C10. In every run, a schema sent to the engine to create a collection is a new object:
  it has the freshly generated name, and the fields and every other property of the
  caller's schema. The caller's object, and every other object of the heap, is left as it
  was. At most one collection is created in a run; a run in which the listing of the
  files, the construction of the client and the generation of the name all succeed
  creates exactly one, and any other run ends before its first call to the engine and
  allocates nothing.
\<close>

theorem created_schema_is_renamed_copy:
  assumes "onPostBuild rt new_client opts heap s = (out, w, heap')"
  shows "(\<forall>sent. CollectionsCreate sent \<in> set (requests (trace w)) \<longrightarrow>
            generateNewCollectionName opts (heap ! collectionSchema opts) = Inr (name sent)
          \<and> schema_fields sent = schema_fields (heap ! collectionSchema opts)
          \<and> collection_schema.more sent = collection_schema.more (heap ! collectionSchema opts)
          \<and> sent = (heap ! collectionSchema opts)\<lparr>name := name sent\<rparr>
          \<and> heap' = heap @ [sent]
          \<and> heap' ! collectionSchema opts = heap ! collectionSchema opts
          \<and> filter is_collections_create (requests (trace w)) = [CollectionsCreate sent])
       \<and> take (length heap) heap' = heap
       \<and> length (filter is_collections_create (requests (trace w))) \<le> 1
       \<and> (getHTMLFilesRecursively rt (str_or (rootDir opts) (publicDir opts))
              (str_or (rootDir opts) (publicDir opts)) (exclude opts) = Inr files
            \<and> new_client = Inr client
            \<and> collectionSchema opts < length heap
            \<and> generateNewCollectionName opts (heap ! collectionSchema opts) = Inr n
          \<longrightarrow> filter is_collections_create (requests (trace w))
                = [CollectionsCreate ((heap ! collectionSchema opts)\<lparr>name := n\<rparr>)])
       \<and> (requests (trace w) = [] \<longrightarrow> heap' = heap)"
proof (cases "requests (trace w) = []")
  case True
  have ns: "\<not> (\<exists>files client n.
              getHTMLFilesRecursively rt (str_or (rootDir opts) (publicDir opts))
                (str_or (rootDir opts) (publicDir opts)) (exclude opts) = Inr files
            \<and> new_client = Inr client
            \<and> collectionSchema opts < length heap
            \<and> generateNewCollectionName opts (heap ! collectionSchema opts) = Inr n)"
  proof
    assume "\<exists>files client n.
              getHTMLFilesRecursively rt (str_or (rootDir opts) (publicDir opts))
                (str_or (rootDir opts) (publicDir opts)) (exclude opts) = Inr files
            \<and> new_client = Inr client
            \<and> collectionSchema opts < length heap
            \<and> generateNewCollectionName opts (heap ! collectionSchema opts) = Inr n"
    then obtain files client n where
      su: "getHTMLFilesRecursively rt (str_or (rootDir opts) (publicDir opts))
             (str_or (rootDir opts) (publicDir opts)) (exclude opts) = Inr files"
          "new_client = Inr client" "collectionSchema opts < length heap"
          "generateNewCollectionName opts (heap ! collectionSchema opts) = Inr n"
      by blast
    from onPostBuild_shape[OF su(3,1,4) assms[unfolded su(2)]] obtain old syns ds where
      "requests (trace w) = run_requests (name (heap ! collectionSchema opts)) n
          ((heap ! collectionSchema opts)\<lparr>name := n\<rparr>) old syns ds (isl out)"
      by blast
    with True show False by (simp add: run_requests_def)
  qed
  from onPostBuild_no_setup[OF ns, of s] assms have "heap' = heap" by auto
  with True ns show ?thesis by auto
next
  case False
  let ?base = "heap ! collectionSchema opts"
  from onPostBuild_setup[OF assms False] obtain files' client' n' where
    su: "getHTMLFilesRecursively rt (str_or (rootDir opts) (publicDir opts))
           (str_or (rootDir opts) (publicDir opts)) (exclude opts) = Inr files'"
        "new_client = Inr client'" "collectionSchema opts < length heap"
        "generateNewCollectionName opts ?base = Inr n'"
    by blast
  from onPostBuild_shape[OF su(3,1,4) assms[unfolded su(2)]] obtain old syns ds where
    h: "heap' = heap @ [?base\<lparr>name := n'\<rparr>]" and
    q: "requests (trace w) = run_requests (name ?base) n' (?base\<lparr>name := n'\<rparr>) old syns ds (isl out)"
    by blast
  from q have fc: "filter is_collections_create (requests (trace w))
                     = [CollectionsCreate (?base\<lparr>name := n'\<rparr>)]"
    by (simp add: run_requests_def split: option.splits)
  have only: "sent = ?base\<lparr>name := n'\<rparr>" if "CollectionsCreate sent \<in> set (requests (trace w))"
    for sent
  proof -
    from that have "CollectionsCreate sent \<in> set (filter is_collections_create (requests (trace w)))"
      by simp
    with fc show ?thesis by simp
  qed
  show ?thesis
  proof (intro conjI allI impI)
    fix sent
    assume "CollectionsCreate sent \<in> set (requests (trace w))"
    from only[OF this] have sent: "sent = ?base\<lparr>name := n'\<rparr>" .
    then have nm: "name sent = n'" by simp
    from su(4) nm show "generateNewCollectionName opts ?base = Inr (name sent)" by simp
    from sent show "schema_fields sent = schema_fields ?base" by simp
    from sent show "collection_schema.more sent = collection_schema.more ?base" by simp
    from sent show "sent = ?base\<lparr>name := name sent\<rparr>" by simp
    from h sent show "heap' = heap @ [sent]" by simp
    from h su(3) show "heap' ! collectionSchema opts = ?base" by (simp add: nth_append)
    from fc sent show "filter is_collections_create (requests (trace w)) = [CollectionsCreate sent]"
      by simp
  next
    from h show "take (length heap) heap' = heap" by simp
    from fc show "length (filter is_collections_create (requests (trace w))) \<le> 1" by simp
  next
    assume "getHTMLFilesRecursively rt (str_or (rootDir opts) (publicDir opts))
              (str_or (rootDir opts) (publicDir opts)) (exclude opts) = Inr files
            \<and> new_client = Inr client
            \<and> collectionSchema opts < length heap
            \<and> generateNewCollectionName opts ?base = Inr n"
    with su(4) have "n = n'" by simp
    with fc show "filter is_collections_create (requests (trace w))
                = [CollectionsCreate (?base\<lparr>name := n\<rparr>)]"
      by simp
  next
    assume "requests (trace w) = []"
    with False show "heap' = heap" by simp
  qed
qed

text \<open>The hypotheses of the theorem are met on the concrete site: by the run that
  creates the collection \<open>docs_2\<close>, and by the run in which the listing of the files
  fails.\<close>

theorem created_schema_is_renamed_copy_witness:
  "CollectionsCreate (demo_schema\<lparr>name := ''docs_2''\<rparr>)
     \<in> set (requests (trace (fst (snd swap_failure_run))))
   \<and> getHTMLFilesRecursively demo_runtime
        (str_or (rootDir demo_options) (publicDir demo_options))
        (str_or (rootDir demo_options) (publicDir demo_options)) (exclude demo_options)
       = Inr [''public/a/index.html'']
   \<and> collectionSchema demo_options < length [demo_schema]
   \<and> generateNewCollectionName demo_options ([demo_schema] ! collectionSchema demo_options)
       = Inr ''docs_2''
   \<and> filter is_collections_create (requests (trace (fst (snd swap_failure_run))))
       = [CollectionsCreate (([demo_schema] ! collectionSchema demo_options)\<lparr>name := ''docs_2''\<rparr>)]
   \<and> snd (snd swap_failure_run) = [demo_schema] @ [demo_schema\<lparr>name := ''docs_2''\<rparr>]
   \<and> snd (snd swap_failure_run) ! collectionSchema demo_options
       = [demo_schema] ! collectionSchema demo_options
   \<and> requests (trace (fst (snd listing_failure_run))) = []
   \<and> snd (snd listing_failure_run) = [demo_schema]"
proof -
  have c: "CollectionsCreate (demo_schema\<lparr>name := ''docs_2''\<rparr>)
             \<in> set (requests (trace (fst (snd swap_failure_run))))"
    by (simp add: swap_failure_run_eval)
  have l: "getHTMLFilesRecursively demo_runtime
        (str_or (rootDir demo_options) (publicDir demo_options))
        (str_or (rootDir demo_options) (publicDir demo_options)) (exclude demo_options)
       = Inr [''public/a/index.html'']"
    by (simp add: demo_runtime_def sim_runtime_def)
  have b: "collectionSchema demo_options < length [demo_schema]"
    by (simp add: demo_options_def)
  have g: "generateNewCollectionName demo_options ([demo_schema] ! collectionSchema demo_options)
       = Inr ''docs_2''"
    by (simp add: demo_options_def demo_schema_def)
  have r: "onPostBuild demo_runtime (Inr (sim_typesense is_aliases_upsert)) demo_options
             [demo_schema] demo_engine
           = (fst swap_failure_run, fst (snd swap_failure_run), snd (snd swap_failure_run))"
    by (simp add: swap_failure_run_def)
  have r': "onPostBuild listing_failure_runtime (Inr (sim_typesense never)) demo_options
             [demo_schema] demo_engine
           = (fst listing_failure_run, fst (snd listing_failure_run),
              snd (snd listing_failure_run))"
    by (simp add: listing_failure_run_def)
  have n: "requests (trace (fst (snd listing_failure_run))) = []"
    by (simp add: listing_failure_run_eval)
  note th = created_schema_is_renamed_copy[OF r, where files="[''public/a/index.html'']"
      and client="sim_typesense is_aliases_upsert" and n="''docs_2''"]
  note th' = created_schema_is_renamed_copy[OF r']
  from th c have h: "snd (snd swap_failure_run) = [demo_schema] @ [demo_schema\<lparr>name := ''docs_2''\<rparr>]"
    "snd (snd swap_failure_run) ! collectionSchema demo_options
       = [demo_schema] ! collectionSchema demo_options"
    by blast+
  from th l b g
  have f: "filter is_collections_create (requests (trace (fst (snd swap_failure_run))))
       = [CollectionsCreate (([demo_schema] ! collectionSchema demo_options)\<lparr>name := ''docs_2''\<rparr>)]"
    by blast
  from th' n have h': "snd (snd listing_failure_run) = [demo_schema]"
    by blast
  from c l b g f h n h' show ?thesis
    by blast
qed

end
